theory Spec2Isabelle
  imports Main "HOL-Library.Multiset"
begin

section \<open>JavaScript values used by the gateway\<close>

text \<open>
  The gateway (\<^verbatim>\<open>src/index.ts\<close>) is an Express router over handles of an external queue
  engine. Request bodies, response bodies and the opaque data of the engine are JSON
  values. \<open>JUndef\<close> stands for JavaScript's \<^verbatim>\<open>undefined\<close> (a missing field). Numbers are
  integers of unbounded size: the rounding of IEEE doubles beyond \<open>2^53\<close>, the exponent
  with which JavaScript prints a number from \<open>10^21\<close> on, and fractional numbers are not part
  of the model.
\<close>

datatype json =
    JUndef
  | JNull
  | JBool bool
  | JNum int
  | JStr string
  | JArr "json list"
  | JObj "(string \<times> json) list"

text \<open>The result of \<^verbatim>\<open>parseInt\<close>: an integer or \<^verbatim>\<open>NaN\<close>.\<close>

datatype jsnum = NaN | Number int

subsection \<open>Strings\<close>

definition is_js_space :: "char \<Rightarrow> bool" where
  "is_js_space c = ((of_char c :: nat) \<in> {9, 10, 11, 12, 13, 32})"

definition is_digit :: "char \<Rightarrow> bool" where
  "is_digit c = (48 \<le> (of_char c :: nat) \<and> (of_char c :: nat) \<le> 57)"

definition digit_val :: "char \<Rightarrow> nat" where
  "digit_val c = (of_char c :: nat) - 48"

text \<open>The value of a run of decimal digits, most significant first.\<close>

fun digits_value :: "nat \<Rightarrow> string \<Rightarrow> nat" where
  "digits_value acc [] = acc"
| "digits_value acc (c # cs) = digits_value (10 * acc + digit_val c) cs"

text \<open>
  \<^verbatim>\<open>parseInt(s, 10)\<close> on a string: leading white space is skipped, one sign is read, then
  the longest run of decimal digits; with no digit the result is \<^verbatim>\<open>NaN\<close>. Anything after
  the digits is ignored. The white space recognised here is the ASCII part of what
  JavaScript skips.
\<close>

definition parseInt_str :: "string \<Rightarrow> jsnum" where
  "parseInt_str s =
     (let t = dropWhile is_js_space s;
          neg = (case t of c # _ \<Rightarrow> c = CHR ''-'' | [] \<Rightarrow> False);
          u = (case t of c # r \<Rightarrow> if c = CHR ''-'' \<or> c = CHR ''+'' then r else t | [] \<Rightarrow> []);
          ds = takeWhile is_digit u
      in if ds = [] then NaN
         else Number (if neg then - int (digits_value 0 ds) else int (digits_value 0 ds)))"

text \<open>Decimal digits of a natural number, as \<^verbatim>\<open>String(n)\<close> prints them.\<close>

definition digit_char :: "nat \<Rightarrow> char" where
  "digit_char d = ''0123456789'' ! d"

fun show_nat :: "nat \<Rightarrow> string" where
  "show_nat n =
     (if n < 10 then [digit_char n]
      else show_nat (n div 10) @ [digit_char (n mod 10)])"

declare show_nat.simps [simp del]

definition show_int :: "int \<Rightarrow> string" where
  "show_int i = (if i < 0 then CHR ''-'' # show_nat (nat (- i)) else show_nat (nat i))"

text \<open>\<^verbatim>\<open>Array.prototype.join\<close>.\<close>

fun join :: "string \<Rightarrow> string list \<Rightarrow> string" where
  "join sep [] = []"
| "join sep [x] = x"
| "join sep (x # y # ys) = x @ sep @ join sep (y # ys)"

text \<open>
  A value that a call may throw or reject with: an \<^verbatim>\<open>Error\<close> instance, with its message and
  its stack trace, or any other value.
\<close>

datatype thrown = ErrorObj string string | NonError json

text \<open>The \<^verbatim>\<open>TypeError\<close> of a conversion to a primitive value that finds none.\<close>

definition type_error :: thrown where
  "type_error = ErrorObj ''Cannot convert object to primitive value'' ''TypeError''"

text \<open>The first exception of a list of results, or all the values.\<close>

fun collect :: "(thrown + 'a) list \<Rightarrow> thrown + 'a list" where
  "collect [] = Inr []"
| "collect (Inl e # rs) = Inl e"
| "collect (Inr v # rs) = (case collect rs of Inl e \<Rightarrow> Inl e | Inr vs \<Rightarrow> Inr (v # vs))"

text \<open>
  \<^verbatim>\<open>String(v)\<close>, the conversion \<^verbatim>\<open>parseInt\<close> applies to an argument that is not a string.
  An array prints its elements joined by commas, with \<^verbatim>\<open>null\<close> and \<^verbatim>\<open>undefined\<close> elements
  printed as the empty string. An object of a JSON body prints as \<^verbatim>\<open>[object Object]\<close> through
  the method it inherits, unless it has a field of its own called \<^verbatim>\<open>toString\<close>: a JSON value
  is never a function, so that field hides the inherited method, \<^verbatim>\<open>valueOf\<close> yields no
  primitive value either, and the conversion throws a \<^verbatim>\<open>TypeError\<close>.
\<close>

fun js_toString :: "json \<Rightarrow> thrown + string" where
  "js_toString JUndef = Inr ''undefined''"
| "js_toString JNull = Inr ''null''"
| "js_toString (JBool b) = Inr (if b then ''true'' else ''false'')"
| "js_toString (JNum n) = Inr (show_int n)"
| "js_toString (JStr s) = Inr s"
| "js_toString (JArr xs) =
     (case collect (map (\<lambda>x. if x = JUndef \<or> x = JNull then Inr [] else js_toString x) xs) of
        Inl e \<Rightarrow> Inl e
      | Inr parts \<Rightarrow> Inr (join '','' parts))"
| "js_toString (JObj kvs) =
     (if ''toString'' \<in> fst ` set kvs then Inl type_error else Inr ''[object Object]'')"

text \<open>\<^verbatim>\<open>parseInt(v, 10)\<close> on a value of a JSON body: it throws when the conversion throws.\<close>

definition parseInt :: "json \<Rightarrow> thrown + jsnum" where
  "parseInt v = (case js_toString v of Inl e \<Rightarrow> Inl e | Inr s \<Rightarrow> Inr (parseInt_str s))"

text \<open>
  A query-string parameter is a string or absent; the routes cast it to a string, and a
  parameter that is repeated or nested in the query string is not part of the model.
  \<^verbatim>\<open>parseInt\<close> of a string or of \<^verbatim>\<open>undefined\<close> does not throw.
\<close>

definition parseInt_query :: "string option \<Rightarrow> jsnum" where
  "parseInt_query v = parseInt_str (case v of None \<Rightarrow> ''undefined'' | Some s \<Rightarrow> s)"

text \<open>\<^verbatim>\<open>x || d\<close> on the result of \<^verbatim>\<open>parseInt\<close>: \<^verbatim>\<open>NaN\<close> and \<open>0\<close> are falsy.\<close>

definition or_default :: "jsnum \<Rightarrow> int \<Rightarrow> int" where
  "or_default x d = (case x of NaN \<Rightarrow> d | Number n \<Rightarrow> if n = 0 then d else n)"

text \<open>Truthiness of an optional string: \<^verbatim>\<open>undefined\<close> and the empty string are falsy.\<close>

definition truthy :: "string option \<Rightarrow> bool" where
  "truthy v = (case v of None \<Rightarrow> False | Some s \<Rightarrow> s \<noteq> [])"

section \<open>The external collaborators\<close>

text \<open>
  How a call to a collaborator completes: it returns a plain value, returns a promise that
  is fulfilled, or throws or returns a promise that is rejected. \<^verbatim>\<open>await\<close> treats the first
  two alike and re-throws the third.
\<close>

datatype 'a completion = Returns 'a | Resolves 'a | Rejects thrown

fun await :: "'a completion \<Rightarrow> thrown + 'a" where
  "await (Returns v) = Inr v"
| "await (Resolves v) = Inr v"
| "await (Rejects e) = Inl e"

text \<open>
  A job handle of the engine: the fields \<^verbatim>\<open>serializeJob\<close> reads and the operations the
  routes invoke. \<open>timestamp\<close> is the creation time, a number or \<^verbatim>\<open>undefined\<close>.
\<close>

record job =
  job_id :: string
  job_name :: string
  job_data :: json
  job_opts :: json
  progress :: json
  attemptsMade :: json
  failedReason :: json
  returnvalue :: json
  timestamp :: "int option"
  processedOn :: json
  finishedOn :: json
  job_remove :: "unit completion"
  job_retry :: "unit completion"
  job_promote :: "unit completion"
  job_getState :: "string completion"

text \<open>The filter object built by the search route (\<^verbatim>\<open>SearchJobsOptions\<close>).\<close>

record search_opts =
  so_state :: "string option"
  so_name :: "string option"
  so_data :: "json option"
  so_limit :: "int option"

text \<open>
  A queue handle. Every operation is a function of its arguments: within one request no
  operation is called twice with the same arguments.
\<close>

record job_logs =
  logs :: "string list"
  logs_count :: int

record metrics =
  metrics_count :: int

record queue =
  qname :: string
  getJobCounts :: "json completion"
  isPaused :: "bool completion"
  getJobs :: "string \<Rightarrow> int \<Rightarrow> int \<Rightarrow> job list completion"
  getJob :: "string \<Rightarrow> job option completion"
  getJobLogs :: "string \<Rightarrow> job_logs completion"
  getWorkers :: "json completion"
  getRepeatableJobs :: "json completion"
  getDeadLetterJobs :: "int \<Rightarrow> int \<Rightarrow> job list completion"
  getMetrics :: "string \<Rightarrow> metrics completion"
  searchJobs :: "search_opts \<Rightarrow> job list completion"
  pause :: "unit completion"
  resume :: "unit completion"
  obliterate :: "bool \<Rightarrow> unit completion"
  drain :: "bool \<Rightarrow> unit completion"
  retryJobs :: "int option \<Rightarrow> json completion"
  clean :: "int \<Rightarrow> int \<Rightarrow> string \<Rightarrow> string list completion"

text \<open>
  The part of an Express request the routes read: the path parameters \<^verbatim>\<open>:name\<close> and
  \<^verbatim>\<open>:id\<close>, the query string and the parsed JSON body (no field when there is no body).
\<close>

record request =
  params_name :: string
  params_id :: string
  query :: "(string \<times> string) list"
  body :: "(string \<times> json) list"

definition query_param :: "request \<Rightarrow> string \<Rightarrow> string option" where
  "query_param req k = map_of (query req) k"

text \<open>\<^verbatim>\<open>req.body?.k\<close>: \<^verbatim>\<open>undefined\<close> when the field is missing.\<close>

definition body_field :: "request \<Rightarrow> string \<Rightarrow> json" where
  "body_field req k = (case map_of (body req) k of None \<Rightarrow> JUndef | Some v \<Rightarrow> v)"

text \<open>\<^verbatim>\<open>DashboardOptions\<close>. The event sources are identified by the object and carry a name.\<close>

record source =
  source_id :: nat
  source_name :: string

record options =
  queueEvents :: "source list option"
  readOnly :: "bool option"
  authorize :: "(request \<Rightarrow> string \<Rightarrow> bool completion) option"

subsection \<open>What a handler does\<close>

text \<open>
  The calls a handler makes on its collaborators, in the order it makes them, each with the
  value it failed with, if it failed. Calls of tasks that run concurrently are listed task
  by task.
\<close>

datatype call =
    Authorize request string
  | GetJobCounts string
  | IsPaused string
  | GetJobs string string int int
  | GetJob string string
  | GetJobLogs string string
  | JobGetState string string
  | GetWorkers string
  | GetRepeatableJobs string
  | GetDeadLetterJobs string int int
  | GetMetrics string string
  | SearchJobs string search_opts
  | Pause string
  | Resume string
  | Obliterate string bool
  | Drain string bool
  | RetryJobs string "int option"
  | Clean string int int string
  | JobRemove string string
  | JobRetry string string
  | JobPromote string string

type_synonym trace = "(call \<times> thrown option) list"

text \<open>
  A handler ends by writing a response, or with a rejection that nothing in the router
  catches (no response is written by the router then).
\<close>

datatype outcome = Responded nat json | Unhandled thrown

text \<open>The body of a \<^verbatim>\<open>try\<close> block: the calls made, and the exception or the value.\<close>

type_synonym 'a attempt = "trace \<times> (thrown + 'a)"

definition failure :: "'a completion \<Rightarrow> thrown option" where
  "failure r = (case await r of Inl e \<Rightarrow> Some e | Inr _ \<Rightarrow> None)"

definition invoke :: "call \<Rightarrow> 'a completion \<Rightarrow> 'a attempt" where
  "invoke c r = ([(c, failure r)], await r)"

definition finish :: "'a \<Rightarrow> 'a attempt" where
  "finish v = ([], Inr v)"

definition and_then :: "'a attempt \<Rightarrow> ('a \<Rightarrow> 'b attempt) \<Rightarrow> 'b attempt" where
  "and_then m f =
     (case m of
        (tr, Inl e) \<Rightarrow> (tr, Inl e)
      | (tr, Inr v) \<Rightarrow> (case f v of (tr', r) \<Rightarrow> (tr @ tr', r)))"

text \<open>
  \<^verbatim>\<open>Promise.all\<close> over tasks that have all been started: every task makes its calls, and the
  result is the list of values or a rejection of one task (here the first in list order).
\<close>

fun promise_all :: "'a attempt list \<Rightarrow> 'a list attempt" where
  "promise_all [] = ([], Inr [])"
| "promise_all ((tr, r) # ms) =
     (case promise_all ms of
        (tr', rs) \<Rightarrow>
          (tr @ tr',
           case r of
             Inl e \<Rightarrow> Inl e
           | Inr v \<Rightarrow> (case rs of Inl e \<Rightarrow> Inl e | Inr vs \<Rightarrow> Inr (v # vs))))"

text \<open>\<^verbatim>\<open>Promise.all\<close> over a pair of started tasks.\<close>

definition promise_both :: "'a attempt \<Rightarrow> 'b attempt \<Rightarrow> ('a \<times> 'b) attempt" where
  "promise_both m1 m2 =
     (case m1 of
        (tr1, r1) \<Rightarrow>
          (case m2 of
             (tr2, r2) \<Rightarrow>
               (tr1 @ tr2,
                case r1 of
                  Inl e \<Rightarrow> Inl e
                | Inr a \<Rightarrow> (case r2 of Inl e \<Rightarrow> Inl e | Inr b \<Rightarrow> Inr (a, b)))))"

section \<open>The router\<close>

definition MAX_PAGE_SIZE :: int where
  "MAX_PAGE_SIZE = 200"

definition VALID_STATES :: "string list" where
  "VALID_STATES = [''waiting'', ''active'', ''delayed'', ''completed'', ''failed'']"

definition error_body :: "string \<Rightarrow> json" where
  "error_body m = JObj [(''error'', JStr m)]"

text \<open>\<^verbatim>\<open>safeError\<close>; every caller leaves the status at its default, 500.\<close>

definition safeError :: "thrown \<Rightarrow> outcome" where
  "safeError err =
     Responded 500
       (error_body (case err of ErrorObj message stack \<Rightarrow> message
                    | NonError v \<Rightarrow> ''Internal server error''))"

text \<open>A \<^verbatim>\<open>try\<close> block whose \<^verbatim>\<open>catch\<close> clause is \<^verbatim>\<open>safeError(res, err)\<close>.\<close>

definition try_catch :: "outcome attempt \<Rightarrow> outcome \<times> trace" where
  "try_catch m = (case m of (tr, Inl err) \<Rightarrow> (safeError err, tr) | (tr, Inr out) \<Rightarrow> (out, tr))"

definition serializeJob_fields :: "job \<Rightarrow> (string \<times> json) list" where
  "serializeJob_fields j =
     [(''id'', JStr (job_id j)),
      (''name'', JStr (job_name j)),
      (''data'', job_data j),
      (''opts'', job_opts j),
      (''progress'', progress j),
      (''attemptsMade'', attemptsMade j),
      (''failedReason'', failedReason j),
      (''returnvalue'', returnvalue j),
      (''timestamp'', (case timestamp j of None \<Rightarrow> JUndef | Some t \<Rightarrow> JNum t)),
      (''processedOn'', processedOn j),
      (''finishedOn'', finishedOn j)]"

definition serializeJob :: "job \<Rightarrow> json" where
  "serializeJob j = JObj (serializeJob_fields j)"

text \<open>\<^verbatim>\<open>{ ...serializeJob(j), state }\<close>: no field of \<^verbatim>\<open>serializeJob\<close> is called \<^verbatim>\<open>state\<close>.\<close>

definition tagged_job :: "job \<Rightarrow> string \<Rightarrow> json" where
  "tagged_job j s = JObj (serializeJob_fields j @ [(''state'', JStr s)])"

text \<open>
  The lookup table built by \<^verbatim>\<open>createDashboard\<close>: of two queues with one name the later
  one is kept.
\<close>

definition queueMap :: "queue list \<Rightarrow> string \<Rightarrow> queue option" where
  "queueMap queues = fold (\<lambda>q m. m(qname q \<mapsto> q)) queues Map.empty"

definition not_found :: "string \<Rightarrow> outcome \<times> trace" where
  "not_found what = (Responded 404 (error_body (what @ '' not found'')), [])"

definition str_of :: "string option \<Rightarrow> string" where
  "str_of v = (case v of None \<Rightarrow> [] | Some s \<Rightarrow> s)"

subsection \<open>Pagination, sorting and slicing\<close>

text \<open>
  The three lines that open the listing of jobs (145--147) and of dead-letter jobs
  (229--231): \<^verbatim>\<open>start\<close> and \<^verbatim>\<open>endVal\<close>.
\<close>

definition page_start :: "request \<Rightarrow> int" where
  "page_start req = or_default (parseInt_query (query_param req ''start'')) 0"

definition page_end :: "request \<Rightarrow> int" where
  "page_end req =
     (case parseInt_query (query_param req ''end'') of
        NaN \<Rightarrow> 20
      | Number e \<Rightarrow> min e (page_start req + MAX_PAGE_SIZE))"

text \<open>\<^verbatim>\<open>(x.timestamp as number) ?? 0\<close> on a serialized job.\<close>

definition timestamp_of :: "json \<Rightarrow> int" where
  "timestamp_of x =
     (case x of
        JObj kvs \<Rightarrow> (case map_of kvs ''timestamp'' of Some (JNum t) \<Rightarrow> t | _ \<Rightarrow> 0)
      | _ \<Rightarrow> 0)"

text \<open>
  \<^verbatim>\<open>tagged.sort((a, b) => ts(b) - ts(a))\<close>: \<^verbatim>\<open>Array.prototype.sort\<close> is stable, and so is
  insertion by key.
\<close>

definition sort_newest_first :: "json list \<Rightarrow> json list" where
  "sort_newest_first xs = sort_key (\<lambda>x. - timestamp_of x) xs"

text \<open>
  \<^verbatim>\<open>Array.prototype.slice(start, end)\<close>: a negative index counts from the end of the
  array, and both indices are clamped to the array.
\<close>

definition js_slice :: "'a list \<Rightarrow> int \<Rightarrow> int \<Rightarrow> 'a list" where
  "js_slice xs s e =
     (let n = int (length xs);
          k = (if s < 0 then max (n + s) 0 else min s n);
          f = (if e < 0 then max (n + e) 0 else min e n)
      in take (nat (f - k)) (drop (nat k) xs))"

subsection \<open>Read routes\<close>

definition list_queues :: "queue list \<Rightarrow> outcome \<times> trace" where
  "list_queues queues =
     try_catch
       (and_then
          (promise_all
             (map (\<lambda>q.
                and_then (invoke (GetJobCounts (qname q)) (getJobCounts q)) (\<lambda>counts.
                and_then (invoke (IsPaused (qname q)) (isPaused q)) (\<lambda>paused.
                finish (JObj [(''name'', JStr (qname q)), (''counts'', counts),
                              (''paused'', JBool paused)]))))
              queues))
          (\<lambda>result. finish (Responded 200 (JArr result))))"

text \<open>The branch of the job listing with a state filter (line 150).\<close>

definition list_jobs_of_state :: "queue \<Rightarrow> string \<Rightarrow> int \<Rightarrow> int \<Rightarrow> outcome attempt" where
  "list_jobs_of_state queue state start endVal =
     and_then (invoke (GetJobs (qname queue) state start endVal) (getJobs queue state start endVal))
       (\<lambda>jobs. finish (Responded 200 (JArr (map (\<lambda>j. tagged_job j state) jobs))))"

text \<open>
  The branch without a state filter (lines 153--163). The five fetches are started in the
  order of \<open>VALID_STATES\<close> and complete in an order that the router does not control:
  \<open>done_at s\<close> is the time at which the fetch for state \<open>s\<close> completes. A fetch that succeeds
  appends its jobs to \<^verbatim>\<open>tagged\<close> when it completes; the first one to fail rejects the
  \<^verbatim>\<open>Promise.all\<close>.
\<close>

definition completion_order :: "(string \<Rightarrow> nat) \<Rightarrow> string list" where
  "completion_order done_at = sort_key done_at VALID_STATES"

definition list_jobs_all_states :: "queue \<Rightarrow> (string \<Rightarrow> nat) \<Rightarrow> int \<Rightarrow> int \<Rightarrow> outcome attempt" where
  "list_jobs_all_states queue done_at start endVal =
     (let fetch = (\<lambda>s.
            and_then (invoke (GetJobs (qname queue) s 0 endVal) (getJobs queue s 0 endVal))
              (\<lambda>jobs. finish (map (\<lambda>j. tagged_job j s) jobs)))
      in (concat (map (\<lambda>s. fst (fetch s)) VALID_STATES),
          case collect (map (\<lambda>s. snd (fetch s)) (completion_order done_at)) of
            Inl e \<Rightarrow> Inl e
          | Inr pushed \<Rightarrow>
              Inr (Responded 200
                     (JArr (js_slice (sort_newest_first (concat pushed)) start endVal)))))"

definition list_jobs :: "queue list \<Rightarrow> (string \<Rightarrow> nat) \<Rightarrow> request \<Rightarrow> outcome \<times> trace" where
  "list_jobs queues done_at req =
     (case queueMap queues (params_name req) of
        None \<Rightarrow> not_found ''Queue''
      | Some queue \<Rightarrow>
          let state = query_param req ''state'' in
          if truthy state \<and> str_of state \<notin> set VALID_STATES then
            (Responded 400
               (error_body (''Invalid state: '' @ str_of state @ ''. Must be one of: ''
                            @ join '', '' VALID_STATES)), [])
          else
            let start = page_start req; endVal = page_end req in
            try_catch
              (if truthy state then list_jobs_of_state queue (str_of state) start endVal
               else list_jobs_all_states queue done_at start endVal))"

definition show_job :: "queue list \<Rightarrow> request \<Rightarrow> outcome \<times> trace" where
  "show_job queues req =
     (case queueMap queues (params_name req) of
        None \<Rightarrow> not_found ''Queue''
      | Some queue \<Rightarrow>
          let jobId = params_id req in
          try_catch
            (and_then (invoke (GetJob (qname queue) jobId) (getJob queue jobId)) (\<lambda>found.
               case found of
                 None \<Rightarrow> finish (Responded 404 (error_body ''Job not found''))
               | Some j \<Rightarrow>
                   and_then (invoke (GetJobLogs (qname queue) jobId) (getJobLogs queue jobId))
                     (\<lambda>lg.
                   and_then (invoke (JobGetState (qname queue) jobId) (job_getState j))
                     (\<lambda>state.
                   finish (Responded 200
                     (JObj (serializeJob_fields j @
                            [(''state'', JStr state),
                             (''logs'', JArr (map JStr (logs lg)))]))))))))"

definition list_workers :: "queue list \<Rightarrow> request \<Rightarrow> outcome \<times> trace" where
  "list_workers queues req =
     (case queueMap queues (params_name req) of
        None \<Rightarrow> not_found ''Queue''
      | Some queue \<Rightarrow>
          try_catch
            (and_then (invoke (GetWorkers (qname queue)) (getWorkers queue))
               (\<lambda>workers. finish (Responded 200 workers))))"

definition list_schedulers :: "queue list \<Rightarrow> request \<Rightarrow> outcome \<times> trace" where
  "list_schedulers queues req =
     (case queueMap queues (params_name req) of
        None \<Rightarrow> not_found ''Queue''
      | Some queue \<Rightarrow>
          try_catch
            (and_then (invoke (GetRepeatableJobs (qname queue)) (getRepeatableJobs queue))
               (\<lambda>schedulers. finish (Responded 200 schedulers))))"

definition list_dlq :: "queue list \<Rightarrow> request \<Rightarrow> outcome \<times> trace" where
  "list_dlq queues req =
     (case queueMap queues (params_name req) of
        None \<Rightarrow> not_found ''Queue''
      | Some queue \<Rightarrow>
          let start = page_start req; endVal = page_end req in
          try_catch
            (and_then
               (invoke (GetDeadLetterJobs (qname queue) start endVal)
                  (getDeadLetterJobs queue start endVal))
               (\<lambda>jobs. finish (Responded 200 (JArr (map serializeJob jobs))))))"

definition show_metrics :: "queue list \<Rightarrow> request \<Rightarrow> outcome \<times> trace" where
  "show_metrics queues req =
     (case queueMap queues (params_name req) of
        None \<Rightarrow> not_found ''Queue''
      | Some queue \<Rightarrow>
          try_catch
            (and_then
               (promise_both
                  (invoke (GetMetrics (qname queue) ''completed'') (getMetrics queue ''completed''))
                  (invoke (GetMetrics (qname queue) ''failed'') (getMetrics queue ''failed'')))
               (\<lambda>(completed, failed).
                  finish (Responded 200
                    (JObj [(''completed'', JNum (metrics_count completed)),
                           (''failed'', JNum (metrics_count failed))])))))"

text \<open>
  The filter of the search route, built field by field (lines 266--277). \<^verbatim>\<open>JSON.parse\<close> is
  a parameter: \<open>None\<close> when it throws.
\<close>

definition search_filter :: "(string \<Rightarrow> json option) \<Rightarrow> request \<Rightarrow> search_opts" where
  "search_filter json_parse req =
     (let o0 = \<lparr>so_state = None, so_name = None, so_data = None, so_limit = None\<rparr>;
          st = query_param req ''state'';
          o1 = (if truthy st then
                  (if str_of st \<in> set VALID_STATES then o0\<lparr>so_state := Some (str_of st)\<rparr> else o0)
                else o0);
          nm = query_param req ''name'';
          o2 = (if truthy nm then o1\<lparr>so_name := Some (str_of nm)\<rparr> else o1);
          dt = query_param req ''data'';
          o3 = (if truthy dt then
                  (case json_parse (str_of dt) of
                     Some v \<Rightarrow> o2\<lparr>so_data := Some v\<rparr>
                   | None \<Rightarrow> o2)
                else o2)
      in o3\<lparr>so_limit :=
              Some (min (or_default (parseInt_query (query_param req ''limit'')) 50)
                        MAX_PAGE_SIZE)\<rparr>)"

definition search :: "(string \<Rightarrow> json option) \<Rightarrow> queue list \<Rightarrow> request \<Rightarrow> outcome \<times> trace" where
  "search json_parse queues req =
     (case queueMap queues (params_name req) of
        None \<Rightarrow> not_found ''Queue''
      | Some queue \<Rightarrow>
          let searchOpts = search_filter json_parse req in
          try_catch
            (and_then (invoke (SearchJobs (qname queue) searchOpts) (searchJobs queue searchOpts))
               (\<lambda>jobs. finish (Responded 200 (JArr (map serializeJob jobs))))))"

subsection \<open>The mutation guard\<close>

text \<open>\<^verbatim>\<open>opts?.readOnly\<close> and \<^verbatim>\<open>opts?.authorize\<close>: the options and each field may be absent.\<close>

definition opt_readOnly :: "options option \<Rightarrow> bool" where
  "opt_readOnly opts =
     (case opts of None \<Rightarrow> False
      | Some o' \<Rightarrow> (case readOnly o' of None \<Rightarrow> False | Some b \<Rightarrow> b))"

definition opt_authorize :: "options option \<Rightarrow> (request \<Rightarrow> string \<Rightarrow> bool completion) option" where
  "opt_authorize opts = (case opts of None \<Rightarrow> None | Some o' \<Rightarrow> authorize o')"

text \<open>
  What \<^verbatim>\<open>guardMutation\<close> leaves to its caller: \<open>Proceed\<close> when it returns \<^verbatim>\<open>true\<close>; \<open>Stop\<close>
  when it has written a 403 response and returns \<^verbatim>\<open>false\<close>, or when the callback throws
  and the rejection leaves the handler.
\<close>

datatype verdict = Proceed | Stop outcome

definition guardMutation :: "options option \<Rightarrow> request \<Rightarrow> string \<Rightarrow> trace \<times> verdict" where
  "guardMutation opts req action =
     (if opt_readOnly opts then
        ([], Stop (Responded 403 (error_body ''Dashboard is in read-only mode'')))
      else
        (case opt_authorize opts of
           None \<Rightarrow> ([], Proceed)
         | Some callback \<Rightarrow>
             (case invoke (Authorize req action) (callback req action) of
                (tr, Inl e) \<Rightarrow> (tr, Stop (Unhandled e))
              | (tr, Inr allowed) \<Rightarrow>
                  if \<not> allowed then (tr, Stop (Responded 403 (error_body ''Unauthorized'')))
                  else (tr, Proceed))))"

text \<open>\<^verbatim>\<open>if (!(await guardMutation(...))) return;\<close> followed by the rest of the handler.\<close>

definition guarded :: "trace \<times> verdict \<Rightarrow> outcome \<times> trace \<Rightarrow> outcome \<times> trace" where
  "guarded g rest =
     (case g of
        (tr, Stop out) \<Rightarrow> (out, tr)
      | (tr, Proceed) \<Rightarrow> (case rest of (out, tr') \<Rightarrow> (out, tr @ tr')))"

subsection \<open>Mutation routes\<close>

text \<open>For each route, the handler after its guard, then the handler.\<close>

definition status_body :: "string \<Rightarrow> json" where
  "status_body s = JObj [(''status'', JStr s)]"

definition pause_rest :: "queue list \<Rightarrow> request \<Rightarrow> outcome \<times> trace" where
  "pause_rest queues req =
     (case queueMap queues (params_name req) of
        None \<Rightarrow> not_found ''Queue''
      | Some queue \<Rightarrow>
          try_catch
            (and_then (invoke (Pause (qname queue)) (pause queue))
               (\<lambda>_. finish (Responded 200 (status_body ''paused'')))))"

definition post_pause :: "queue list \<Rightarrow> options option \<Rightarrow> request \<Rightarrow> outcome \<times> trace" where
  "post_pause queues opts req =
     guarded (guardMutation opts req ''queue:pause'') (pause_rest queues req)"

definition resume_rest :: "queue list \<Rightarrow> request \<Rightarrow> outcome \<times> trace" where
  "resume_rest queues req =
     (case queueMap queues (params_name req) of
        None \<Rightarrow> not_found ''Queue''
      | Some queue \<Rightarrow>
          try_catch
            (and_then (invoke (Resume (qname queue)) (resume queue))
               (\<lambda>_. finish (Responded 200 (status_body ''resumed'')))))"

definition post_resume :: "queue list \<Rightarrow> options option \<Rightarrow> request \<Rightarrow> outcome \<times> trace" where
  "post_resume queues opts req =
     guarded (guardMutation opts req ''queue:resume'') (resume_rest queues req)"

definition remove_job_rest :: "queue list \<Rightarrow> request \<Rightarrow> outcome \<times> trace" where
  "remove_job_rest queues req =
     (case queueMap queues (params_name req) of
        None \<Rightarrow> not_found ''Queue''
      | Some queue \<Rightarrow>
          let jobId = params_id req in
          try_catch
            (and_then (invoke (GetJob (qname queue) jobId) (getJob queue jobId)) (\<lambda>found.
               case found of
                 None \<Rightarrow> finish (Responded 404 (error_body ''Job not found''))
               | Some j \<Rightarrow>
                   and_then (invoke (JobRemove (qname queue) jobId) (job_remove j))
                     (\<lambda>_. finish (Responded 200 (status_body ''removed''))))))"

definition delete_job :: "queue list \<Rightarrow> options option \<Rightarrow> request \<Rightarrow> outcome \<times> trace" where
  "delete_job queues opts req =
     guarded (guardMutation opts req ''job:remove'') (remove_job_rest queues req)"

definition retry_job_rest :: "queue list \<Rightarrow> request \<Rightarrow> outcome \<times> trace" where
  "retry_job_rest queues req =
     (case queueMap queues (params_name req) of
        None \<Rightarrow> not_found ''Queue''
      | Some queue \<Rightarrow>
          let jobId = params_id req in
          try_catch
            (and_then (invoke (GetJob (qname queue) jobId) (getJob queue jobId)) (\<lambda>found.
               case found of
                 None \<Rightarrow> finish (Responded 404 (error_body ''Job not found''))
               | Some j \<Rightarrow>
                   and_then (invoke (JobRetry (qname queue) jobId) (job_retry j))
                     (\<lambda>_. finish (Responded 200 (status_body ''retried''))))))"

definition post_job_retry :: "queue list \<Rightarrow> options option \<Rightarrow> request \<Rightarrow> outcome \<times> trace" where
  "post_job_retry queues opts req =
     guarded (guardMutation opts req ''job:retry'') (retry_job_rest queues req)"

definition promote_job_rest :: "queue list \<Rightarrow> request \<Rightarrow> outcome \<times> trace" where
  "promote_job_rest queues req =
     (case queueMap queues (params_name req) of
        None \<Rightarrow> not_found ''Queue''
      | Some queue \<Rightarrow>
          let jobId = params_id req in
          try_catch
            (and_then (invoke (GetJob (qname queue) jobId) (getJob queue jobId)) (\<lambda>found.
               case found of
                 None \<Rightarrow> finish (Responded 404 (error_body ''Job not found''))
               | Some j \<Rightarrow>
                   and_then (invoke (JobPromote (qname queue) jobId) (job_promote j))
                     (\<lambda>_. finish (Responded 200 (status_body ''promoted''))))))"

definition post_job_promote :: "queue list \<Rightarrow> options option \<Rightarrow> request \<Rightarrow> outcome \<times> trace" where
  "post_job_promote queues opts req =
     guarded (guardMutation opts req ''job:promote'') (promote_job_rest queues req)"

definition obliterate_rest :: "queue list \<Rightarrow> request \<Rightarrow> outcome \<times> trace" where
  "obliterate_rest queues req =
     (case queueMap queues (params_name req) of
        None \<Rightarrow> not_found ''Queue''
      | Some queue \<Rightarrow>
          try_catch
            (and_then (invoke (Obliterate (qname queue) True) (obliterate queue True))
               (\<lambda>_. finish (Responded 200 (status_body ''obliterated'')))))"

definition post_obliterate :: "queue list \<Rightarrow> options option \<Rightarrow> request \<Rightarrow> outcome \<times> trace" where
  "post_obliterate queues opts req =
     guarded (guardMutation opts req ''queue:obliterate'') (obliterate_rest queues req)"

definition drain_rest :: "queue list \<Rightarrow> request \<Rightarrow> outcome \<times> trace" where
  "drain_rest queues req =
     (case queueMap queues (params_name req) of
        None \<Rightarrow> not_found ''Queue''
      | Some queue \<Rightarrow>
          let delayed = (body_field req ''delayed'' = JBool True) in
          try_catch
            (and_then (invoke (Drain (qname queue) delayed) (drain queue delayed))
               (\<lambda>_. finish (Responded 200 (status_body ''drained'')))))"

definition post_drain :: "queue list \<Rightarrow> options option \<Rightarrow> request \<Rightarrow> outcome \<times> trace" where
  "post_drain queues opts req =
     guarded (guardMutation opts req ''queue:drain'') (drain_rest queues req)"

text \<open>
  \<^verbatim>\<open>count > 0 ? { count } : undefined\<close>, the argument of \<^verbatim>\<open>retryJobs\<close>, from the parsed
  \<^verbatim>\<open>count\<close> of the body.
\<close>

definition cap_of :: "jsnum \<Rightarrow> int option" where
  "cap_of parsed = (let count = or_default parsed 0 in if count > 0 then Some count else None)"

text \<open>
  The retry-all route. Line 428 parses \<^verbatim>\<open>count\<close> before the \<^verbatim>\<open>try\<close> block: when the
  conversion throws, the handler ends there, with no response and no engine call.
\<close>

definition retry_all_rest :: "queue list \<Rightarrow> request \<Rightarrow> outcome \<times> trace" where
  "retry_all_rest queues req =
     (case queueMap queues (params_name req) of
        None \<Rightarrow> not_found ''Queue''
      | Some queue \<Rightarrow>
          (case parseInt (body_field req ''count'') of
             Inl e \<Rightarrow> (Unhandled e, [])
           | Inr parsed \<Rightarrow>
               let cap = cap_of parsed in
               try_catch
                 (and_then (invoke (RetryJobs (qname queue) cap) (retryJobs queue cap))
                    (\<lambda>retried.
                       finish (Responded 200
                         (JObj [(''status'', JStr ''ok''), (''retried'', retried)]))))))"

definition post_retry_all :: "queue list \<Rightarrow> options option \<Rightarrow> request \<Rightarrow> outcome \<times> trace" where
  "post_retry_all queues opts req =
     guarded (guardMutation opts req ''queue:retryAll'') (retry_all_rest queues req)"

text \<open>
  The clean route. Lines 446 and 447 parse \<^verbatim>\<open>grace\<close> and \<^verbatim>\<open>limit\<close> before anything is
  checked and outside the \<^verbatim>\<open>try\<close> block: when a conversion throws, the handler ends there.
  Where \<^verbatim>\<open>clean\<close> is called, \<^verbatim>\<open>type\<close> is one of the two strings.
\<close>

definition clean_rest :: \<open>queue list \<Rightarrow> request \<Rightarrow> outcome \<times> trace\<close> where
  \<open>clean_rest queues req =
     (case queueMap queues (params_name req) of
        None \<Rightarrow> not_found ''Queue''
      | Some queue \<Rightarrow>
          (case parseInt (body_field req ''grace'') of
             Inl e \<Rightarrow> (Unhandled e, [])
           | Inr grace \<Rightarrow>
               (case parseInt (body_field req ''limit'') of
                  Inl e \<Rightarrow> (Unhandled e, [])
                | Inr parsed_limit \<Rightarrow>
                    let limit = or_default parsed_limit 100;
                        type = body_field req ''type''
                    in
                    (case grace of
                       NaN \<Rightarrow>
                         (Responded 400
                            (error_body ''grace must be a non-negative integer (ms)''), [])
                     | Number g \<Rightarrow>
                         if g < 0 then
                           (Responded 400
                              (error_body ''grace must be a non-negative integer (ms)''), [])
                         else
                           (case type of
                              JStr t \<Rightarrow>
                                if t \<noteq> ''completed'' \<and> t \<noteq> ''failed'' then
                                  (Responded 400
                                     (error_body ''type must be "completed" or "failed"''), [])
                                else
                                  try_catch
                                    (and_then
                                       (invoke (Clean (qname queue) g (min limit 1000) t)
                                          (clean queue g (min limit 1000) t))
                                       (\<lambda>removed.
                                          finish (Responded 200
                                            (JObj [(''status'', JStr ''ok''),
                                                   (''removed'', JNum (int (length removed)))]))))
                            | _ \<Rightarrow>
                                (Responded 400
                                   (error_body ''type must be "completed" or "failed"''), []))))))\<close>

definition post_clean :: "queue list \<Rightarrow> options option \<Rightarrow> request \<Rightarrow> outcome \<times> trace" where
  "post_clean queues opts req =
     guarded (guardMutation opts req ''queue:clean'') (clean_rest queues req)"

subsection \<open>Dispatch\<close>

datatype mutating_route =
    PostPause | PostResume | PostObliterate | PostDrain | PostRetryAll | PostClean
  | DeleteJob | PostJobRetry | PostJobPromote

fun mutation :: "mutating_route \<Rightarrow> queue list \<Rightarrow> options option \<Rightarrow> request \<Rightarrow> outcome \<times> trace" where
  "mutation PostPause = post_pause"
| "mutation PostResume = post_resume"
| "mutation PostObliterate = post_obliterate"
| "mutation PostDrain = post_drain"
| "mutation PostRetryAll = post_retry_all"
| "mutation PostClean = post_clean"
| "mutation DeleteJob = delete_job"
| "mutation PostJobRetry = post_job_retry"
| "mutation PostJobPromote = post_job_promote"

text \<open>The handler of each route after its guard, and the action string it passes to the guard.\<close>

fun rest_of :: "mutating_route \<Rightarrow> queue list \<Rightarrow> request \<Rightarrow> outcome \<times> trace" where
  "rest_of PostPause = pause_rest"
| "rest_of PostResume = resume_rest"
| "rest_of PostObliterate = obliterate_rest"
| "rest_of PostDrain = drain_rest"
| "rest_of PostRetryAll = retry_all_rest"
| "rest_of PostClean = clean_rest"
| "rest_of DeleteJob = remove_job_rest"
| "rest_of PostJobRetry = retry_job_rest"
| "rest_of PostJobPromote = promote_job_rest"

fun action_of :: "mutating_route \<Rightarrow> string" where
  "action_of PostPause = ''queue:pause''"
| "action_of PostResume = ''queue:resume''"
| "action_of PostObliterate = ''queue:obliterate''"
| "action_of PostDrain = ''queue:drain''"
| "action_of PostRetryAll = ''queue:retryAll''"
| "action_of PostClean = ''queue:clean''"
| "action_of DeleteJob = ''job:remove''"
| "action_of PostJobRetry = ''job:retry''"
| "action_of PostJobPromote = ''job:promote''"

datatype read_route =
    GetQueues | GetJobsOfQueue | GetJobById | GetWorkersOfQueue | GetSchedulers | GetDlq
  | GetMetricsOfQueue | GetSearch

fun read_only_route :: "read_route \<Rightarrow> (string \<Rightarrow> json option) \<Rightarrow> (string \<Rightarrow> nat) \<Rightarrow> queue list \<Rightarrow> request
                          \<Rightarrow> outcome \<times> trace" where
  "read_only_route GetQueues jp done_at queues req = list_queues queues"
| "read_only_route GetJobsOfQueue jp done_at queues req = list_jobs queues done_at req"
| "read_only_route GetJobById jp done_at queues req = show_job queues req"
| "read_only_route GetWorkersOfQueue jp done_at queues req = list_workers queues req"
| "read_only_route GetSchedulers jp done_at queues req = list_schedulers queues req"
| "read_only_route GetDlq jp done_at queues req = list_dlq queues req"
| "read_only_route GetMetricsOfQueue jp done_at queues req = show_metrics queues req"
| "read_only_route GetSearch jp done_at queues req = search jp queues req"

subsection \<open>The router as a whole\<close>

text \<open>The routes of the REST interface, and the router that serves them.\<close>

datatype api_route = Reading read_route | Mutating mutating_route

fun handle :: "api_route \<Rightarrow> (string \<Rightarrow> json option) \<Rightarrow> (string \<Rightarrow> nat) \<Rightarrow> queue list \<Rightarrow> options option
                 \<Rightarrow> request \<Rightarrow> outcome \<times> trace" where
  "handle (Reading r) jp done_at queues opts req = read_only_route r jp done_at queues req"
| "handle (Mutating r) jp done_at queues opts req = mutation r queues opts req"

section \<open>The live event stream\<close>

text \<open>
  The event sources are Node event emitters shared by all connections. An emitter keeps, for
  each event name, the listeners in the order of registration; \<^verbatim>\<open>on\<close> appends a listener and
  \<^verbatim>\<open>removeListener\<close> removes the instance added last, if there is one. A listener is a
  closure, known by its identity. The world also holds the interval timers that are running.
  Closures and timers are allocated from counters, so that a new one differs from all
  earlier ones. What a listener or the timer writes to the response when it fires plays no
  part below and is left out.
\<close>

record world =
  listeners :: "nat \<times> string \<Rightarrow> nat list"
  next_handler :: nat
  timers :: "nat set"
  next_timer :: nat

definition emitter_on :: "nat \<Rightarrow> string \<Rightarrow> nat \<Rightarrow> world \<Rightarrow> world" where
  "emitter_on src ev h w =
     w\<lparr>listeners := (listeners w)((src, ev) := listeners w (src, ev) @ [h])\<rparr>"

definition remove_last :: "'a \<Rightarrow> 'a list \<Rightarrow> 'a list" where
  "remove_last x xs = rev (remove1 x (rev xs))"

definition emitter_removeListener :: "nat \<Rightarrow> string \<Rightarrow> nat \<Rightarrow> world \<Rightarrow> world" where
  "emitter_removeListener src ev h w =
     w\<lparr>listeners := (listeners w)((src, ev) := remove_last h (listeners w (src, ev)))\<rparr>"

definition listenerCount :: "world \<Rightarrow> nat \<Rightarrow> string \<Rightarrow> nat" where
  "listenerCount w src ev = length (listeners w (src, ev))"

text \<open>An entry of the array \<^verbatim>\<open>listeners\<close> of a connection: \<^verbatim>\<open>{ qe, event, handler }\<close>.\<close>

record subscription =
  sub_source :: nat
  sub_event :: string
  sub_handler :: nat

text \<open>
  What the handler of \<^verbatim>\<open>/api/events\<close> keeps for one connection: the response head and the
  chunks written so far, the array \<^verbatim>\<open>listeners\<close> and the heartbeat timer.
\<close>

record connection =
  conn_status :: nat
  conn_headers :: "(string \<times> string) list"
  conn_written :: "string list"
  conn_listeners :: "subscription list"
  heartbeat :: nat

definition eventNames :: "string list" where
  "eventNames =
     [''completed'', ''failed'', ''progress'', ''active'', ''waiting'', ''stalled'', ''removed'']"

text \<open>The inner loop (lines 481--488): one new closure per event name, registered and recorded.\<close>

fun register_events :: "nat \<Rightarrow> string list \<Rightarrow> subscription list \<times> world \<Rightarrow> subscription list \<times> world" where
  "register_events qe [] (ls, w) = (ls, w)"
| "register_events qe (eventName # rest) (ls, w) =
     (let handler = next_handler w;
          w1 = emitter_on qe eventName handler (w\<lparr>next_handler := Suc handler\<rparr>)
      in register_events qe rest
           (ls @ [\<lparr>sub_source = qe, sub_event = eventName, sub_handler = handler\<rparr>], w1))"

text \<open>The outer loop (line 480) over the configured event sources.\<close>

fun register_sources :: "source list \<Rightarrow> subscription list \<times> world \<Rightarrow> subscription list \<times> world" where
  "register_sources [] s = s"
| "register_sources (qe # rest) s =
     register_sources rest (register_events (source_id qe) eventNames s)"

text \<open>\<^verbatim>\<open>opts?.queueEvents ?? []\<close>.\<close>

definition opt_queueEvents :: "options option \<Rightarrow> source list" where
  "opt_queueEvents opts =
     (case opts of None \<Rightarrow> []
      | Some o' \<Rightarrow> (case queueEvents o' of None \<Rightarrow> [] | Some qes \<Rightarrow> qes))"

text \<open>The handler of \<^verbatim>\<open>GET /api/events\<close> up to the registration of \<^verbatim>\<open>cleanup\<close> (lines 469--493).\<close>

definition open_events :: "options option \<Rightarrow> world \<Rightarrow> connection \<times> world" where
  "open_events opts w =
     (case register_sources (opt_queueEvents opts) ([], w) of
        (ls, w1) \<Rightarrow>
          (let timer = next_timer w1;
               w2 = w1\<lparr>timers := insert timer (timers w1), next_timer := Suc timer\<rparr>
           in (\<lparr>conn_status = 200,
                conn_headers = [(''Content-Type'', ''text/event-stream''),
                                (''Cache-Control'', ''no-cache''),
                                (''Connection'', ''keep-alive'')],
                conn_written = [[CHR 0x0A]],
                conn_listeners = ls,
                heartbeat = timer\<rparr>, w2)))"

text \<open>\<^verbatim>\<open>cleanup\<close> (lines 495--500).\<close>

definition cleanup :: "connection \<Rightarrow> world \<Rightarrow> world" where
  "cleanup c w =
     fold (\<lambda>l. emitter_removeListener (sub_source l) (sub_event l) (sub_handler l))
       (conn_listeners c) (w\<lparr>timers := timers w - {heartbeat c}\<rparr>)"

text \<open>
  The two events that end a connection, \<^verbatim>\<open>close\<close> on the request and \<^verbatim>\<open>error\<close> on the
  response; \<^verbatim>\<open>cleanup\<close> is the listener of both (lines 502--503).
\<close>

datatype terminal = Close | ResponseError

fun on_terminal :: "terminal \<Rightarrow> connection \<Rightarrow> world \<Rightarrow> world" where
  "on_terminal Close c w = cleanup c w"
| "on_terminal ResponseError c w = cleanup c w"

text \<open>
  The event stream over time. Either a client opens a connection, which runs the handler of
  \<^verbatim>\<open>/api/events\<close>, or a terminal event occurs on the connection that was the \<open>i\<close>-th to open,
  which runs its listener \<^verbatim>\<open>cleanup\<close>. The connections of several clients interleave in any
  order, and both terminal events of one connection may occur. Next to the world, the
  connections opened so far and the positions of those that have had a terminal event are
  recorded; the router itself keeps neither.
\<close>

datatype event = Opens | Ends terminal nat

record server =
  sv_world :: world
  sv_opened :: "connection list"
  sv_ended :: "nat set"

fun step :: "options option \<Rightarrow> event \<Rightarrow> server \<Rightarrow> server" where
  "step opts Opens s =
     (case open_events opts (sv_world s) of
        (c, w) \<Rightarrow> s\<lparr>sv_world := w, sv_opened := sv_opened s @ [c]\<rparr>)"
| "step opts (Ends t i) s =
     (if i < length (sv_opened s) then
        s\<lparr>sv_world := on_terminal t (sv_opened s ! i) (sv_world s),
          sv_ended := insert i (sv_ended s)\<rparr>
      else s)"

definition run :: "options option \<Rightarrow> event list \<Rightarrow> world \<Rightarrow> server" where
  "run opts evs w0 = fold (step opts) evs \<lparr>sv_world = w0, sv_opened = [], sv_ended = {}\<rparr>"

section \<open>Notions used by the statements\<close>

text \<open>A call on the queue engine, as opposed to the authorization callback.\<close>

fun is_engine_call :: "call \<Rightarrow> bool" where
  "is_engine_call (Authorize req action) = False"
| "is_engine_call c = True"





text \<open>The limit that the clean route passes to the engine (lines 447 and 460).\<close>

definition clean_limit :: "jsnum \<Rightarrow> int" where
  "clean_limit parsed_limit = min (or_default parsed_limit 100) 1000"




text \<open>The limit parameter of a search request as parsed, and the limit the route passes on (line 277).\<close>

definition requested_limit :: "request \<Rightarrow> jsnum" where
  "requested_limit req = parseInt_query (query_param req ''limit'')"

definition search_limit :: "request \<Rightarrow> int" where
  "search_limit req = min (or_default (requested_limit req) 50) MAX_PAGE_SIZE"

text \<open>The \<^verbatim>\<open>start\<close> and \<^verbatim>\<open>end\<close> parameters of a listing request as parsed.\<close>

definition requested_start :: "request \<Rightarrow> jsnum" where
  "requested_start req = parseInt_query (query_param req ''start'')"

definition requested_end :: "request \<Rightarrow> jsnum" where
  "requested_end req = parseInt_query (query_param req ''end'')"




text \<open>What the fetch for one state yields: the rejection, or the tagged jobs it appends.\<close>

definition fetch_outcome :: "queue \<Rightarrow> int \<Rightarrow> string \<Rightarrow> thrown + json list" where
  "fetch_outcome q endVal s =
     (case await (getJobs q s 0 endVal) of
        Inl e \<Rightarrow> Inl e
      | Inr jobs \<Rightarrow> Inr (map (\<lambda>j. tagged_job j s) jobs))"

text \<open>
  A \<^verbatim>\<open>try\<close> block is consistent when it calls the engine only, ends with an exception only if
  one of its calls failed with it, and ends with a value only if none failed.
\<close>

definition consistent :: "'a attempt \<Rightarrow> bool" where
  "consistent m =
     ((\<forall>x \<in> set (fst m). is_engine_call (fst x))
      \<and> (case snd m of
            Inl e \<Rightarrow> \<exists>c. (c, Some e) \<in> set (fst m)
          | Inr v \<Rightarrow> \<forall>x \<in> set (fst m). snd x = None))"

text \<open>A handler reports failures when a failed call in its trace means a 500 for one of them.\<close>

definition failures_reported :: "outcome \<times> trace \<Rightarrow> bool" where
  "failures_reported h =
     ((\<forall>x \<in> set (snd h). is_engine_call (fst x))
      \<and> ((\<exists>x \<in> set (snd h). snd x \<noteq> None) \<longrightarrow>
           (\<exists>c e. (c, Some e) \<in> set (snd h) \<and> fst h = safeError e)))"

text \<open>
  A world is well formed when the closures and timers in use were allocated earlier: their
  identities lie below the counters.
\<close>

definition wf_world :: "world \<Rightarrow> bool" where
  "wf_world w =
     ((\<forall>k. \<forall>h \<in> set (listeners w k). h < next_handler w)
      \<and> (\<forall>t \<in> timers w. t < next_timer w))"

text \<open>The subscriptions of a connection at one source and event name.\<close>

definition handlers_at :: "subscription list \<Rightarrow> nat \<times> string \<Rightarrow> nat list" where
  "handlers_at ls k = map sub_handler (filter (\<lambda>l. (sub_source l, sub_event l) = k) ls)"

text \<open>
  Registering and removing one subscription, and the subscriptions that the two loops
  create when the next free closure identity is \<open>n\<close>.
\<close>

definition subscribe :: "subscription \<Rightarrow> world \<Rightarrow> world" where
  "subscribe l = emitter_on (sub_source l) (sub_event l) (sub_handler l)"

definition unsubscribe :: "subscription \<Rightarrow> world \<Rightarrow> world" where
  "unsubscribe l = emitter_removeListener (sub_source l) (sub_event l) (sub_handler l)"

fun subs_for :: "nat \<Rightarrow> string list \<Rightarrow> nat \<Rightarrow> subscription list" where
  "subs_for qe [] n = []"
| "subs_for qe (ev # evs) n =
     \<lparr>sub_source = qe, sub_event = ev, sub_handler = n\<rparr> # subs_for qe evs (Suc n)"

fun subs_all :: "source list \<Rightarrow> nat \<Rightarrow> subscription list" where
  "subs_all [] n = []"
| "subs_all (qe # qes) n =
     subs_for (source_id qe) eventNames n @ subs_all qes (n + length eventNames)"

text \<open>The connections that are open: those that have had no terminal event, oldest first.\<close>

definition live_ids :: "server \<Rightarrow> nat list" where
  "live_ids s = filter (\<lambda>i. i \<notin> sv_ended s) [0 ..< length (sv_opened s)]"

definition live :: "server \<Rightarrow> connection list" where
  "live s = map (\<lambda>i. sv_opened s ! i) (live_ids s)"

text \<open>The number of closures one connection registers, seven for each event source.\<close>

definition block :: "options option \<Rightarrow> nat" where
  "block opts = length eventNames * length (opt_queueEvents opts)"

text \<open>
  What holds of the server after any sequence of events that starts in the world \<open>w0\<close>: the
  connection opened as the \<open>i\<close>-th holds the \<open>i\<close>-th block of closures and the \<open>i\<close>-th timer
  allocated since, and what is registered is what was registered in \<open>w0\<close>, then the closures
  of the open connections, oldest first.
\<close>

definition block_at :: "options option \<Rightarrow> world \<Rightarrow> nat \<Rightarrow> subscription list" where
  "block_at opts w0 i = subs_all (opt_queueEvents opts) (next_handler w0 + i * block opts)"

definition stream_inv :: "options option \<Rightarrow> world \<Rightarrow> server \<Rightarrow> bool" where
  "stream_inv opts w0 s =
     (next_handler (sv_world s) = next_handler w0 + length (sv_opened s) * block opts
      \<and> next_timer (sv_world s) = next_timer w0 + length (sv_opened s)
      \<and> sv_ended s \<subseteq> {..< length (sv_opened s)}
      \<and> (\<forall>i < length (sv_opened s).
            conn_listeners (sv_opened s ! i) = block_at opts w0 i
            \<and> heartbeat (sv_opened s ! i) = next_timer w0 + i)
      \<and> (\<forall>k. listeners (sv_world s) k
               = listeners w0 k
                 @ concat (map (\<lambda>i. handlers_at (block_at opts w0 i) k) (live_ids s)))
      \<and> timers (sv_world s) = timers w0 \<union> (\<lambda>i. next_timer w0 + i) ` set (live_ids s))"

section \<open>Sample collaborators\<close>


definition mock_queue :: "string \<Rightarrow> queue" where
  "mock_queue n =
     \<lparr>qname = n,
      getJobCounts = Resolves (JObj [(''waiting'', JNum 5), (''active'', JNum 2),
        (''delayed'', JNum 1), (''completed'', JNum 10), (''failed'', JNum 3)]),
      isPaused = Resolves False,
      getJobs = (\<lambda>state start end. Resolves []),
      getJob = (\<lambda>i. Resolves None),
      getJobLogs = (\<lambda>i. Resolves \<lparr>logs = [], logs_count = 0\<rparr>),
      getWorkers = Resolves (JArr []),
      getRepeatableJobs = Resolves (JArr []),
      getDeadLetterJobs = (\<lambda>start end. Resolves []),
      getMetrics = (\<lambda>t. Resolves \<lparr>metrics_count = 42\<rparr>),
      searchJobs = (\<lambda>f. Resolves []),
      pause = Resolves (),
      resume = Resolves (),
      obliterate = (\<lambda>force. Resolves ()),
      drain = (\<lambda>delayed. Resolves ()),
      retryJobs = (\<lambda>cap. Resolves (JNum 5)),
      clean = (\<lambda>grace limit type. Resolves [''1'', ''2''])\<rparr>"

definition mock_request :: "string \<Rightarrow> request" where
  "mock_request n = \<lparr>params_name = n, params_id = ''1'', query = [], body = []\<rparr>"

text \<open>Options that set \<^verbatim>\<open>readOnly\<close> next to a callback that allows everything.\<close>

definition read_only_opts :: "options option" where
  "read_only_opts =
     Some \<lparr>queueEvents = None, readOnly = Some True,
           authorize = Some (\<lambda>req action. Returns True)\<rparr>"


text \<open>A clean request as the test suite sends it, with a limit above the cap.\<close>

definition clean_request :: request where
  "clean_request =
     \<lparr>params_name = ''q'', params_id = [], query = [],
      body = [(''grace'', JNum 3600000), (''limit'', JNum 5000), (''type'', JStr ''completed'')]\<rparr>"

text \<open>A request on queue \<^verbatim>\<open>q\<close> and job \<^verbatim>\<open>1\<close> with the given fields in its body.\<close>

definition body_request :: "(string \<times> json) list \<Rightarrow> request" where
  "body_request kvs = \<lparr>params_name = ''q'', params_id = ''1'', query = [], body = kvs\<rparr>"


text \<open>A queue whose engine is down: counting and cleaning reject with the given value.\<close>

definition failing_queue :: "string \<Rightarrow> thrown \<Rightarrow> queue" where
  "failing_queue n e =
     (mock_queue n)\<lparr>getJobCounts := Rejects e, clean := (\<lambda>grace limit type. Rejects e)\<rparr>"

text \<open>A search request with a negative limit.\<close>

definition negative_limit_request :: request where
  "negative_limit_request =
     \<lparr>params_name = ''q'', params_id = [], query = [(''limit'', ''-5'')], body = []\<rparr>"

text \<open>A listing request with the given query string.\<close>

definition page_request :: "string \<Rightarrow> (string \<times> string) list \<Rightarrow> request" where
  "page_request n qs = \<lparr>params_name = n, params_id = [], query = qs, body = []\<rparr>"


definition failed_first :: "string \<Rightarrow> nat" where
  "failed_first s = (if s = ''failed'' then 0 else 1)"

definition in_order :: "string \<Rightarrow> nat" where
  "in_order s = 0"

text \<open>The world in which nothing has been registered, and two event sources.\<close>

definition empty_world :: world where
  "empty_world = \<lparr>listeners = (\<lambda>k. []), next_handler = 0, timers = {}, next_timer = 0\<rparr>"

definition events_opts :: "options option" where
  "events_opts =
     Some \<lparr>queueEvents = Some [\<lparr>source_id = 0, source_name = ''payments''\<rparr>,
                                \<lparr>source_id = 1, source_name = ''emails''\<rparr>],
           readOnly = None, authorize = None\<rparr>"

section \<open>Conversions of sample values\<close>

lemmas parse_defs = parseInt_def parseInt_str_def show_int_def show_nat.simps digit_char_def
  is_js_space_def is_digit_def digit_val_def

lemma parseInt_undefined: "parseInt JUndef = Inr NaN"
  by (simp add: parse_defs)

lemma parseInt_grace_example: "parseInt (JNum 3600000) = Inr (Number 3600000)"
  by (simp add: parse_defs)

lemma parseInt_limit_example: "parseInt (JNum 5000) = Inr (Number 5000)"
  by (simp add: parse_defs)

lemma parseInt_three: "parseInt (JNum 3) = Inr (Number 3)"
  by (simp add: parse_defs)

lemma parseInt_minus_three: "parseInt (JStr ''-3'') = Inr (Number (- 3))"
  by (simp add: parse_defs)

lemma parseInt_leading_digits: "parseInt (JStr ''12abc'') = Inr (Number 12)"
  by (simp add: parse_defs)

lemma parseInt_negative_fraction: "parseInt (JStr ''-0.5'') = Inr (Number 0)"
  by (simp add: parse_defs)

lemma parseInt_own_toString: "parseInt (JObj [(''toString'', JNum 1)]) = Inl type_error"
  by (simp add: parseInt_def)

lemma parseInt_array_own_toString:
  "parseInt (JArr [JObj [(''toString'', JNum 1)]]) = Inl type_error"
  by (simp add: parseInt_def)

lemma parseInt_str_examples:
  "parseInt_str ''undefined'' = NaN"
  "parseInt_str ''-5'' = Number (- 5)"
  "parseInt_str ''0'' = Number 0"
  "parseInt_str ''1'' = Number 1"
  "parseInt_str ''2'' = Number 2"
  "parseInt_str ''3'' = Number 3"
  "parseInt_str ''5'' = Number 5"
  "parseInt_str ''100'' = Number 100"
  "parseInt_str ''99999'' = Number 99999"
  by (simp_all add: parseInt_str_def is_js_space_def is_digit_def digit_val_def)

section \<open>Properties of the mutation guard\<close>

lemmas route_defs = post_pause_def post_resume_def post_obliterate_def post_drain_def
  post_retry_all_def post_clean_def delete_job_def post_job_retry_def post_job_promote_def

text \<open>
  Claim C1. On each of the nine mutating routes, when the \<^verbatim>\<open>readOnly\<close> option is true the
  response is 403 with the message \<^verbatim>\<open>Dashboard is in read-only mode\<close>, which mentions
  \<^verbatim>\<open>read-only\<close>, and the handler makes no call at all: neither the authorization callback
  nor any operation of the engine is invoked, whatever the callback would answer.
\<close>

theorem readOnly_blocks_every_mutation:
  assumes "opt_readOnly opts"
  shows "mutation r queues opts req
           = (Responded 403 (error_body ''Dashboard is in read-only mode''), [])
         \<and> (\<exists>pre post. ''Dashboard is in read-only mode'' = pre @ ''read-only'' @ post)"
proof
  show "mutation r queues opts req
           = (Responded 403 (error_body ''Dashboard is in read-only mode''), [])"
    using assms by (cases r) (simp_all add: route_defs guardMutation_def guarded_def)
  have "''Dashboard is in read-only mode'' = ''Dashboard is in '' @ ''read-only'' @ '' mode''"
    by simp
  then show "\<exists>pre post. ''Dashboard is in read-only mode'' = pre @ ''read-only'' @ post"
    by blast
qed

theorem readOnly_blocks_every_mutation_witness:
  "opt_readOnly read_only_opts
   \<and> mutation PostObliterate [mock_queue ''q''] read_only_opts (mock_request ''q'')
      = (Responded 403 (error_body ''Dashboard is in read-only mode''), [])"
  using readOnly_blocks_every_mutation
          [of read_only_opts PostObliterate "[mock_queue ''q'']" "mock_request ''q''"]
  by (simp add: opt_readOnly_def read_only_opts_def)

lemmas attempt_defs = and_then_def invoke_def finish_def try_catch_def not_found_def
lemmas rest_defs = pause_rest_def resume_rest_def obliterate_rest_def drain_rest_def
  retry_all_rest_def clean_rest_def remove_job_rest_def retry_job_rest_def promote_job_rest_def

lemma try_one_call:
  "try_catch (and_then (invoke c r) (\<lambda>v. finish (f v)))
     = ((case await r of Inl e \<Rightarrow> safeError e | Inr v \<Rightarrow> f v), [(c, failure r)])"
  by (simp add: attempt_defs split: sum.splits)




lemma mutation_is_guarded:
  "mutation r queues opts req = guarded (guardMutation opts req (action_of r)) (rest_of r queues req)"
  by (cases r) (simp_all add: route_defs)



lemma guarded_split:
  "guarded (tr, v) rest = (case v of Stop out \<Rightarrow> (out, tr) | Proceed \<Rightarrow> (fst rest, tr @ snd rest))"
  by (simp add: guarded_def split: verdict.splits prod.splits)


section \<open>Properties of the bulk operations\<close>

lemma guard_trace_no_engine:
  "x \<in> set (fst (guardMutation opts req a)) \<Longrightarrow> \<not> is_engine_call (fst x)"
  by (auto simp: guardMutation_def invoke_def split: if_splits option.splits sum.splits)

lemma guard_passes_without_options: "guardMutation None req a = ([], Proceed)"
  by (simp add: guardMutation_def opt_readOnly_def opt_authorize_def)

lemma body_request_queue:
  "queueMap [mock_queue ''q''] (params_name (body_request kvs)) = Some (mock_queue ''q'')"
  by (simp add: queueMap_def mock_queue_def body_request_def)

lemma retry_all_rest_known:
  assumes "queueMap queues (params_name req) = Some q"
    and "parseInt (body_field req ''count'') = Inr parsed"
  shows "retry_all_rest queues req =
     ((case await (retryJobs q (cap_of parsed)) of
         Inl e \<Rightarrow> safeError e
       | Inr retried \<Rightarrow> Responded 200 (JObj [(''status'', JStr ''ok''), (''retried'', retried)])),
      [(RetryJobs (qname q) (cap_of parsed), failure (retryJobs q (cap_of parsed)))])"
  using assms by (simp add: retry_all_rest_def try_one_call Let_def)

lemma retry_all_rest_throws:
  assumes "queueMap queues (params_name req) = Some q"
    and "parseInt (body_field req ''count'') = Inl e"
  shows "retry_all_rest queues req = (Unhandled e, [])"
  using assms by (simp add: retry_all_rest_def)

text \<open>
  Claim C10, as the spec states it, fails. A \<^verbatim>\<open>count\<close> that is an object with a field of its
  own called \<^verbatim>\<open>toString\<close> is not numeric, yet \<^verbatim>\<open>retryJobs\<close> is not invoked at all: line 428
  throws before the \<^verbatim>\<open>try\<close> block of line 429, and the handler ends without a response.
  And the count \<^verbatim>\<open>12abc\<close> is not a number, yet the cap 12 is passed.
\<close>

theorem retry_all_count_counterexample:
  "guardMutation None (body_request [(''count'', JObj [(''toString'', JNum 1)])]) ''queue:retryAll''
     = ([], Proceed)
   \<and> queueMap [mock_queue ''q'']
        (params_name (body_request [(''count'', JObj [(''toString'', JNum 1)])]))
      = Some (mock_queue ''q'')
   \<and> post_retry_all [mock_queue ''q''] None
        (body_request [(''count'', JObj [(''toString'', JNum 1)])])
      = (Unhandled type_error, [])
   \<and> post_retry_all [mock_queue ''q''] None (body_request [(''count'', JStr ''12abc'')])
      = (Responded 200 (JObj [(''status'', JStr ''ok''), (''retried'', JNum 5)]),
         [(RetryJobs ''q'' (Some 12), None)])"
proof -
  let ?bad = "body_request [(''count'', JObj [(''toString'', JNum 1)])]"
  let ?lenient = "body_request [(''count'', JStr ''12abc'')]"
  have bad: "parseInt (body_field ?bad ''count'') = Inl type_error"
    by (simp add: body_field_def body_request_def parseInt_own_toString)
  have lenient: "parseInt (body_field ?lenient ''count'') = Inr (Number 12)"
    by (simp add: body_field_def body_request_def parseInt_leading_digits)
  have thrown: "post_retry_all [mock_queue ''q''] None ?bad = (Unhandled type_error, [])"
    by (simp add: post_retry_all_def guard_passes_without_options guarded_split
          retry_all_rest_throws [OF body_request_queue bad])
  have capped: "post_retry_all [mock_queue ''q''] None ?lenient
      = (Responded 200 (JObj [(''status'', JStr ''ok''), (''retried'', JNum 5)]),
         [(RetryJobs ''q'' (Some 12), None)])"
    by (simp add: post_retry_all_def guard_passes_without_options guarded_split
          retry_all_rest_known [OF body_request_queue lenient] cap_of_def or_default_def)
       (simp add: mock_queue_def failure_def)
  from thrown capped show ?thesis
    by (simp add: guard_passes_without_options body_request_queue)
qed

text \<open>
  Claim C10, amended. A retry-all request that passes the mutation guard on a known queue,
  and whose \<^verbatim>\<open>count\<close> converts to a string without an exception, makes exactly one engine
  call, \<^verbatim>\<open>retryJobs\<close>. It passes no cap when the \<^verbatim>\<open>count\<close> of the body is missing, has no
  leading integer, or parses to zero or to a negative number; it passes the cap \<open>n\<close> exactly
  when \<^verbatim>\<open>parseInt\<close> gives \<open>n\<close> for \<^verbatim>\<open>count\<close> and \<open>n\<close> is strictly positive.
\<close>

theorem retry_all_cap_only_when_positive:
  assumes "guardMutation opts req ''queue:retryAll'' = (gtr, Proceed)"
    and "queueMap queues (params_name req) = Some q"
    and "parseInt (body_field req ''count'') = Inr parsed"
  shows "snd (post_retry_all queues opts req)
           = gtr @ [(RetryJobs (qname q) (cap_of parsed), failure (retryJobs q (cap_of parsed)))]
         \<and> (\<forall>x \<in> set gtr. \<not> is_engine_call (fst x))
         \<and> (cap_of parsed = None \<longleftrightarrow> (case parsed of NaN \<Rightarrow> True | Number n \<Rightarrow> n \<le> 0))
         \<and> (\<forall>n. cap_of parsed = Some n \<longleftrightarrow> parsed = Number n \<and> 0 < n)
         \<and> (map_of (body req) ''count'' = None \<longrightarrow> parsed = NaN)"
proof -
  have tr: "snd (post_retry_all queues opts req)
           = gtr @ [(RetryJobs (qname q) (cap_of parsed), failure (retryJobs q (cap_of parsed)))]"
    by (simp add: post_retry_all_def assms(1) guarded_split
          retry_all_rest_known [OF assms(2) assms(3)])
  have g: "\<forall>x \<in> set gtr. \<not> is_engine_call (fst x)"
    using guard_trace_no_engine [of _ opts req "''queue:retryAll''"] assms(1) by simp
  have none: "cap_of parsed = None \<longleftrightarrow> (case parsed of NaN \<Rightarrow> True | Number n \<Rightarrow> n \<le> 0)"
    by (auto simp: cap_of_def or_default_def Let_def split: jsnum.splits)
  have some: "\<forall>n. cap_of parsed = Some n \<longleftrightarrow> parsed = Number n \<and> 0 < n"
    by (auto simp: cap_of_def or_default_def Let_def split: jsnum.splits)
  have missing: "map_of (body req) ''count'' = None \<longrightarrow> parsed = NaN"
    using assms(3) by (auto simp: body_field_def parseInt_undefined)
  from tr g none some missing show ?thesis by blast
qed

theorem retry_all_cap_only_when_positive_witness:
  "guardMutation None (body_request [(''count'', JStr ''-3'')]) ''queue:retryAll'' = ([], Proceed)
   \<and> queueMap [mock_queue ''q''] (params_name (body_request [(''count'', JStr ''-3'')]))
      = Some (mock_queue ''q'')
   \<and> parseInt (body_field (body_request [(''count'', JStr ''-3'')]) ''count'')
      = Inr (Number (- 3))
   \<and> snd (post_retry_all [mock_queue ''q''] None (body_request [(''count'', JStr ''-3'')]))
      = [(RetryJobs ''q'' None, None)]
   \<and> parseInt (body_field (body_request [(''count'', JNum 3)]) ''count'') = Inr (Number 3)
   \<and> snd (post_retry_all [mock_queue ''q''] None (body_request [(''count'', JNum 3)]))
      = [(RetryJobs ''q'' (Some 3), None)]
   \<and> parseInt (body_field (body_request []) ''count'') = Inr NaN
   \<and> snd (post_retry_all [mock_queue ''q''] None (body_request []))
      = [(RetryJobs ''q'' None, None)]"
proof -
  let ?neg = "body_request [(''count'', JStr ''-3'')]"
  let ?pos = "body_request [(''count'', JNum 3)]"
  let ?none = "body_request []"
  note g = guard_passes_without_options
  note q = body_request_queue
  have pn: "parseInt (body_field ?neg ''count'') = Inr (Number (- 3))"
    by (simp add: body_field_def body_request_def parseInt_minus_three)
  have pp: "parseInt (body_field ?pos ''count'') = Inr (Number 3)"
    by (simp add: body_field_def body_request_def parseInt_three)
  have pm: "parseInt (body_field ?none ''count'') = Inr NaN"
    by (simp add: body_field_def body_request_def parseInt_undefined)
  have f: "failure (retryJobs (mock_queue ''q'') cap) = None" for cap
    by (simp add: failure_def mock_queue_def)
  have n: "qname (mock_queue ''q'') = ''q''"
    by (simp add: mock_queue_def)
  have c: "cap_of (Number (- 3)) = None" "cap_of (Number 3) = Some 3" "cap_of NaN = None"
    by (simp_all add: cap_of_def or_default_def)
  have neg: "snd (post_retry_all [mock_queue ''q''] None ?neg) = [(RetryJobs ''q'' None, None)]"
    using retry_all_cap_only_when_positive [OF g q pn] f n c by simp
  have pos: "snd (post_retry_all [mock_queue ''q''] None ?pos) = [(RetryJobs ''q'' (Some 3), None)]"
    using retry_all_cap_only_when_positive [OF g q pp] f n c by simp
  have none: "snd (post_retry_all [mock_queue ''q''] None ?none) = [(RetryJobs ''q'' None, None)]"
    using retry_all_cap_only_when_positive [OF g q pm] f n c by simp
  from neg pos none pn pp pm show ?thesis by (simp add: g q)
qed

text \<open>
  A value of a JSON body that is neither an object nor an array converts without an
  exception.
\<close>

lemma parseInt_of_primitive:
  assumes "\<forall>xs. v \<noteq> JArr xs" and "\<forall>kvs. v \<noteq> JObj kvs"
  shows "\<exists>parsed. parseInt v = Inr parsed"
  using assms by (cases v) (simp_all add: parseInt_def)

lemma clean_rest_known:
  assumes "queueMap queues (params_name req) = Some q"
    and "parseInt (body_field req ''grace'') = Inr grace"
    and "parseInt (body_field req ''limit'') = Inr parsed_limit"
  shows "clean_rest queues req =
     (case grace of
        NaN \<Rightarrow> (Responded 400 (error_body ''grace must be a non-negative integer (ms)''), [])
      | Number g \<Rightarrow>
          if g < 0 then
            (Responded 400 (error_body ''grace must be a non-negative integer (ms)''), [])
          else
            (case body_field req ''type'' of
               JStr t \<Rightarrow>
                 if t \<noteq> ''completed'' \<and> t \<noteq> ''failed'' then
                   (Responded 400 (error_body ''type must be \"completed\" or \"failed\"''), [])
                 else
                   ((case await (clean q g (clean_limit parsed_limit) t) of
                       Inl e \<Rightarrow> safeError e
                     | Inr removed \<Rightarrow>
                         Responded 200 (JObj [(''status'', JStr ''ok''),
                                              (''removed'', JNum (int (length removed)))])),
                    [(Clean (qname q) g (clean_limit parsed_limit) t,
                      failure (clean q g (clean_limit parsed_limit) t))])
             | _ \<Rightarrow>
                 (Responded 400 (error_body ''type must be \"completed\" or \"failed\"''), [])))"
  using assms
  by (simp add: clean_rest_def try_one_call Let_def clean_limit_def
           split: jsnum.splits json.splits)

lemma clean_rest_throws:
  assumes "queueMap queues (params_name req) = Some q"
    and "parseInt (body_field req ''grace'') = Inl e
         \<or> (\<exists>grace. parseInt (body_field req ''grace'') = Inr grace)
            \<and> parseInt (body_field req ''limit'') = Inl e"
  shows "clean_rest queues req = (Unhandled e, [])"
  using assms by (auto simp: clean_rest_def)

text \<open>
  Claim C8, as the spec states it, fails. The \<^verbatim>\<open>grace\<close> \<^verbatim>\<open>12abc\<close> is not a number and the
  \<^verbatim>\<open>grace\<close> \<^verbatim>\<open>-0.5\<close> is negative, yet neither is answered with 400: \<^verbatim>\<open>parseInt\<close> reads the
  leading integer, 12 and 0, and the engine's \<^verbatim>\<open>clean\<close> is called with it. And a \<^verbatim>\<open>grace\<close>
  that is an object with a field of its own called \<^verbatim>\<open>toString\<close> is not numeric and gets no
  response at all: line 446 throws outside the \<^verbatim>\<open>try\<close> block.
\<close>

theorem clean_grace_counterexample:
  "guardMutation None
      (body_request [(''grace'', JStr ''12abc''), (''type'', JStr ''completed'')]) ''queue:clean''
     = ([], Proceed)
   \<and> post_clean [mock_queue ''q''] None
        (body_request [(''grace'', JStr ''12abc''), (''type'', JStr ''completed'')])
      = (Responded 200 (JObj [(''status'', JStr ''ok''), (''removed'', JNum 2)]),
         [(Clean ''q'' 12 100 ''completed'', None)])
   \<and> post_clean [mock_queue ''q''] None
        (body_request [(''grace'', JStr ''-0.5''), (''type'', JStr ''failed'')])
      = (Responded 200 (JObj [(''status'', JStr ''ok''), (''removed'', JNum 2)]),
         [(Clean ''q'' 0 100 ''failed'', None)])
   \<and> post_clean [mock_queue ''q''] None
        (body_request [(''grace'', JObj [(''toString'', JNum 1)]), (''type'', JStr ''failed'')])
      = (Unhandled type_error, [])"
proof -
  let ?a = "body_request [(''grace'', JStr ''12abc''), (''type'', JStr ''completed'')]"
  let ?b = "body_request [(''grace'', JStr ''-0.5''), (''type'', JStr ''failed'')]"
  let ?c = "body_request [(''grace'', JObj [(''toString'', JNum 1)]), (''type'', JStr ''failed'')]"
  have ga: "parseInt (body_field ?a ''grace'') = Inr (Number 12)"
    by (simp add: body_field_def body_request_def parseInt_leading_digits)
  have gb: "parseInt (body_field ?b ''grace'') = Inr (Number 0)"
    by (simp add: body_field_def body_request_def parseInt_negative_fraction)
  have gc: "parseInt (body_field ?c ''grace'') = Inl type_error"
    by (simp add: body_field_def body_request_def parseInt_own_toString)
  have la: "parseInt (body_field ?a ''limit'') = Inr NaN"
    by (simp add: body_field_def body_request_def parseInt_undefined)
  have lb: "parseInt (body_field ?b ''limit'') = Inr NaN"
    by (simp add: body_field_def body_request_def parseInt_undefined)
  have a: "post_clean [mock_queue ''q''] None ?a
      = (Responded 200 (JObj [(''status'', JStr ''ok''), (''removed'', JNum 2)]),
         [(Clean ''q'' 12 100 ''completed'', None)])"
    by (simp add: post_clean_def guard_passes_without_options guarded_split
          clean_rest_known [OF body_request_queue ga la])
       (simp add: body_field_def body_request_def mock_queue_def failure_def clean_limit_def
          or_default_def)
  have b: "post_clean [mock_queue ''q''] None ?b
      = (Responded 200 (JObj [(''status'', JStr ''ok''), (''removed'', JNum 2)]),
         [(Clean ''q'' 0 100 ''failed'', None)])"
    by (simp add: post_clean_def guard_passes_without_options guarded_split
          clean_rest_known [OF body_request_queue gb lb])
       (simp add: body_field_def body_request_def mock_queue_def failure_def clean_limit_def
          or_default_def)
  have c: "post_clean [mock_queue ''q''] None ?c = (Unhandled type_error, [])"
    using clean_rest_throws [OF body_request_queue, where e = type_error] gc
    by (simp add: post_clean_def guard_passes_without_options guarded_split)
  from a b c show ?thesis by (simp add: guard_passes_without_options)
qed

text \<open>
  Claim C8, amended. Take a clean request that passes the mutation guard, on a registered
  queue (any other name is answered 404 before the arguments are read), whose \<^verbatim>\<open>grace\<close> and
  \<^verbatim>\<open>limit\<close> convert to strings without an exception. It is answered with 400 when \<^verbatim>\<open>grace\<close>
  is missing, has no leading integer (\<^verbatim>\<open>parseInt\<close> gives \<^verbatim>\<open>NaN\<close>) or has a negative leading
  integer, and with 400 when \<^verbatim>\<open>type\<close> is neither \<^verbatim>\<open>completed\<close> nor \<^verbatim>\<open>failed\<close>; in both cases
  the calls made are those of the guard, none of them an engine call. Otherwise the
  engine's \<^verbatim>\<open>clean\<close> is called once, with the integer \<^verbatim>\<open>parseInt\<close> reads from \<^verbatim>\<open>grace\<close> and a
  limit of at most 1000, and the response reports the number of jobs the call removed (when
  the call fails, the response is the one of \<^verbatim>\<open>safeError\<close>).
\<close>

theorem clean_validates_then_calls_engine:
  assumes "guardMutation opts req ''queue:clean'' = (gtr, Proceed)"
    and "queueMap queues (params_name req) = Some q"
    and "parseInt (body_field req ''grace'') = Inr grace"
    and "parseInt (body_field req ''limit'') = Inr parsed_limit"
  shows "(\<forall>x \<in> set gtr. \<not> is_engine_call (fst x))
         \<and> (map_of (body req) ''grace'' = None \<longrightarrow> grace = NaN)
         \<and> (grace = NaN \<or> (\<exists>g. grace = Number g \<and> g < 0) \<longrightarrow>
             post_clean queues opts req
               = (Responded 400 (error_body ''grace must be a non-negative integer (ms)''), gtr))
         \<and> ((\<exists>g. grace = Number g \<and> 0 \<le> g)
              \<and> body_field req ''type'' \<noteq> JStr ''completed''
              \<and> body_field req ''type'' \<noteq> JStr ''failed'' \<longrightarrow>
             post_clean queues opts req
               = (Responded 400 (error_body ''type must be \"completed\" or \"failed\"''), gtr))
         \<and> (\<forall>g t. grace = Number g \<and> 0 \<le> g
                  \<and> body_field req ''type'' = JStr t \<and> (t = ''completed'' \<or> t = ''failed'') \<longrightarrow>
               snd (post_clean queues opts req)
                 = gtr @ [(Clean (qname q) g (clean_limit parsed_limit) t,
                           failure (clean q g (clean_limit parsed_limit) t))]
               \<and> clean_limit parsed_limit \<le> 1000
               \<and> (\<forall>removed. await (clean q g (clean_limit parsed_limit) t) = Inr removed \<longrightarrow>
                     fst (post_clean queues opts req)
                       = Responded 200 (JObj [(''status'', JStr ''ok''),
                                              (''removed'', JNum (int (length removed)))]))
               \<and> (\<forall>e. await (clean q g (clean_limit parsed_limit) t) = Inl e \<longrightarrow>
                     fst (post_clean queues opts req) = safeError e))"
proof -
  have pc: "post_clean queues opts req = (fst (clean_rest queues req), gtr @ snd (clean_rest queues req))"
    by (simp add: post_clean_def assms(1) guarded_split)
  note cr = clean_rest_known [OF assms(2) assms(3) assms(4)]
  have g: "\<forall>x \<in> set gtr. \<not> is_engine_call (fst x)"
    using guard_trace_no_engine [of _ opts req "''queue:clean''"] assms(1) by simp
  have missing: "map_of (body req) ''grace'' = None \<longrightarrow> grace = NaN"
    using assms(3) by (auto simp: body_field_def parseInt_undefined)
  have bad_grace: "grace = NaN \<or> (\<exists>g. grace = Number g \<and> g < 0) \<longrightarrow>
             post_clean queues opts req
               = (Responded 400 (error_body ''grace must be a non-negative integer (ms)''), gtr)"
    by (auto simp: pc cr)
  have bad_type: "(\<exists>g. grace = Number g \<and> 0 \<le> g)
              \<and> body_field req ''type'' \<noteq> JStr ''completed''
              \<and> body_field req ''type'' \<noteq> JStr ''failed'' \<longrightarrow>
             post_clean queues opts req
               = (Responded 400 (error_body ''type must be \"completed\" or \"failed\"''), gtr)"
    by (auto simp: pc cr split: json.splits)
  have lim: "clean_limit parsed_limit \<le> 1000"
    by (simp add: clean_limit_def)
  have good: "\<forall>g t. grace = Number g \<and> 0 \<le> g
                  \<and> body_field req ''type'' = JStr t \<and> (t = ''completed'' \<or> t = ''failed'') \<longrightarrow>
               snd (post_clean queues opts req)
                 = gtr @ [(Clean (qname q) g (clean_limit parsed_limit) t,
                           failure (clean q g (clean_limit parsed_limit) t))]
               \<and> clean_limit parsed_limit \<le> 1000
               \<and> (\<forall>removed. await (clean q g (clean_limit parsed_limit) t) = Inr removed \<longrightarrow>
                     fst (post_clean queues opts req)
                       = Responded 200 (JObj [(''status'', JStr ''ok''),
                                              (''removed'', JNum (int (length removed)))]))
               \<and> (\<forall>e. await (clean q g (clean_limit parsed_limit) t) = Inl e \<longrightarrow>
                     fst (post_clean queues opts req) = safeError e)"
    using lim by (auto simp: pc cr)
  from g missing bad_grace bad_type good show ?thesis by blast
qed

theorem clean_validates_then_calls_engine_witness:
  "guardMutation None clean_request ''queue:clean'' = ([], Proceed)
   \<and> queueMap [mock_queue ''q''] (params_name clean_request) = Some (mock_queue ''q'')
   \<and> parseInt (body_field clean_request ''grace'') = Inr (Number 3600000)
   \<and> parseInt (body_field clean_request ''limit'') = Inr (Number 5000)
   \<and> post_clean [mock_queue ''q''] None clean_request
      = (Responded 200 (JObj [(''status'', JStr ''ok''), (''removed'', JNum 2)]),
         [(Clean ''q'' 3600000 1000 ''completed'', None)])
   \<and> parseInt (body_field (body_request [(''grace'', JStr ''-3''), (''type'', JStr ''failed'')])
        ''grace'') = Inr (Number (- 3))
   \<and> post_clean [mock_queue ''q''] None
        (body_request [(''grace'', JStr ''-3''), (''type'', JStr ''failed'')])
      = (Responded 400 (error_body ''grace must be a non-negative integer (ms)''), [])
   \<and> post_clean [mock_queue ''q''] None
        (body_request [(''grace'', JNum 3), (''type'', JStr ''waiting'')])
      = (Responded 400 (error_body ''type must be \"completed\" or \"failed\"''), [])"
proof -
  let ?neg = "body_request [(''grace'', JStr ''-3''), (''type'', JStr ''failed'')]"
  let ?other = "body_request [(''grace'', JNum 3), (''type'', JStr ''waiting'')]"
  note g = guard_passes_without_options
  have q: "queueMap [mock_queue ''q''] (params_name clean_request) = Some (mock_queue ''q'')"
    by (simp add: queueMap_def mock_queue_def clean_request_def)
  have gr: "parseInt (body_field clean_request ''grace'') = Inr (Number 3600000)"
    by (simp add: body_field_def clean_request_def parseInt_grace_example)
  have li: "parseInt (body_field clean_request ''limit'') = Inr (Number 5000)"
    by (simp add: body_field_def clean_request_def parseInt_limit_example)
  have ty: "body_field clean_request ''type'' = JStr ''completed''"
    by (simp add: body_field_def clean_request_def)
  have cl: "clean_limit (Number 5000) = 1000"
    by (simp add: clean_limit_def or_default_def)
  have res: "clean (mock_queue ''q'') 3600000 1000 ''completed'' = Resolves [''1'', ''2'']"
    by (simp add: mock_queue_def)
  have n: "qname (mock_queue ''q'') = ''q''"
    by (simp add: mock_queue_def)
  have "snd (post_clean [mock_queue ''q''] None clean_request)
          = [(Clean ''q'' 3600000 1000 ''completed'', None)]
        \<and> fst (post_clean [mock_queue ''q''] None clean_request)
          = Responded 200 (JObj [(''status'', JStr ''ok''), (''removed'', JNum 2)])"
    using clean_validates_then_calls_engine [OF g q gr li] ty cl res n
    by (simp add: failure_def)
  then have ok: "post_clean [mock_queue ''q''] None clean_request
      = (Responded 200 (JObj [(''status'', JStr ''ok''), (''removed'', JNum 2)]),
         [(Clean ''q'' 3600000 1000 ''completed'', None)])"
    by (simp add: prod_eq_iff)
  have gn: "parseInt (body_field ?neg ''grace'') = Inr (Number (- 3))"
    by (simp add: body_field_def body_request_def parseInt_minus_three)
  have ln: "parseInt (body_field ?neg ''limit'') = Inr NaN"
    by (simp add: body_field_def body_request_def parseInt_undefined)
  have neg: "post_clean [mock_queue ''q''] None ?neg
      = (Responded 400 (error_body ''grace must be a non-negative integer (ms)''), [])"
    using clean_validates_then_calls_engine [OF g body_request_queue gn ln] by simp
  have gt: "parseInt (body_field ?other ''grace'') = Inr (Number 3)"
    by (simp add: body_field_def body_request_def parseInt_three)
  have lt: "parseInt (body_field ?other ''limit'') = Inr NaN"
    by (simp add: body_field_def body_request_def parseInt_undefined)
  have tt: "body_field ?other ''type'' = JStr ''waiting''"
    by (simp add: body_field_def body_request_def)
  have other: "post_clean [mock_queue ''q''] None ?other
      = (Responded 400 (error_body ''type must be \"completed\" or \"failed\"''), [])"
    using clean_validates_then_calls_engine [OF g body_request_queue gt lt] tt by simp
  from ok neg other g q gr li gn show ?thesis by simp
qed

text \<open>
  The two cases left aside above: on a queue that is not registered the request is answered
  with 404, and when the engine rejects the call the response is 500.
\<close>

lemma clean_unknown_queue_or_engine_down:
  "guardMutation None (mock_request ''nonexistent'') ''queue:clean'' = ([], Proceed)
   \<and> map_of (body (mock_request ''nonexistent'')) ''grace'' = None
   \<and> post_clean [mock_queue ''q''] None (mock_request ''nonexistent'')
      = (Responded 404 (error_body ''Queue not found''), [])
   \<and> post_clean [failing_queue ''q'' (ErrorObj ''boom'' ''at clean'')] None clean_request
      = (Responded 500 (error_body ''boom''),
         [(Clean ''q'' 3600000 1000 ''completed'', Some (ErrorObj ''boom'' ''at clean''))])"
proof -
  have q: "queueMap [failing_queue ''q'' (ErrorObj ''boom'' ''at clean'')]
             (params_name clean_request)
           = Some (failing_queue ''q'' (ErrorObj ''boom'' ''at clean''))"
    by (simp add: queueMap_def mock_queue_def failing_queue_def clean_request_def)
  have gr: "parseInt (body_field clean_request ''grace'') = Inr (Number 3600000)"
    by (simp add: body_field_def clean_request_def parseInt_grace_example)
  have li: "parseInt (body_field clean_request ''limit'') = Inr (Number 5000)"
    by (simp add: body_field_def clean_request_def parseInt_limit_example)
  have ty: "body_field clean_request ''type'' = JStr ''completed''"
    by (simp add: body_field_def clean_request_def)
  have "post_clean [failing_queue ''q'' (ErrorObj ''boom'' ''at clean'')] None clean_request
      = (Responded 500 (error_body ''boom''),
         [(Clean ''q'' 3600000 1000 ''completed'', Some (ErrorObj ''boom'' ''at clean''))])"
    by (simp add: post_clean_def guard_passes_without_options guarded_def
          clean_rest_known [OF q gr li] ty clean_limit_def or_default_def)
       (simp add: failing_queue_def mock_queue_def safeError_def failure_def)
  then show ?thesis
    by (simp add: guard_passes_without_options mock_request_def
        post_clean_def guarded_def clean_rest_def queueMap_def mock_queue_def not_found_def)
qed
section \<open>Properties of the read routes\<close>

lemma so_limit_search_filter:
  "so_limit (search_filter jp req) = Some (search_limit req)"
  by (simp add: search_filter_def Let_def search_limit_def requested_limit_def)

lemma search_known:
  assumes "queueMap queues (params_name req) = Some q"
  shows "search jp queues req =
     ((case await (searchJobs q (search_filter jp req)) of
         Inl e \<Rightarrow> safeError e
       | Inr jobs \<Rightarrow> Responded 200 (JArr (map serializeJob jobs))),
      [(SearchJobs (qname q) (search_filter jp req), failure (searchJobs q (search_filter jp req)))])"
  using assms by (simp add: search_def try_one_call Let_def)

text \<open>
  Claim C9, as amended. A search request on a known queue makes one engine call, whose
  filter carries the limit \<open>min l 200\<close>, where \<open>l\<close> is the parsed \<^verbatim>\<open>limit\<close> parameter, or 50
  when the parameter is missing, has no leading integer, or parses to zero. The limit never
  exceeds 200. There is no lower bound: a negative parameter is passed on unchanged, and the
  limit is at least 1 exactly when the parameter does not parse to a negative number.
\<close>

theorem search_limit_capped_not_floored:
  assumes "queueMap queues (params_name req) = Some q"
  shows "snd (search jp queues req)
           = [(SearchJobs (qname q) (search_filter jp req),
               failure (searchJobs q (search_filter jp req)))]
         \<and> so_limit (search_filter jp req) = Some (search_limit req)
         \<and> search_limit req \<le> 200
         \<and> (requested_limit req = NaN \<or> requested_limit req = Number 0 \<longrightarrow> search_limit req = 50)
         \<and> (query_param req ''limit'' = None \<longrightarrow> requested_limit req = NaN)
         \<and> (\<forall>n. requested_limit req = Number n \<and> n \<noteq> 0 \<longrightarrow> search_limit req = min n 200)
         \<and> (1 \<le> search_limit req \<longleftrightarrow> \<not> (\<exists>n. requested_limit req = Number n \<and> n < 0))"
proof -
  have a: "snd (search jp queues req)
           = [(SearchJobs (qname q) (search_filter jp req),
               failure (searchJobs q (search_filter jp req)))]"
    by (simp add: search_known [OF assms])
  have b: "search_limit req \<le> 200"
    by (simp add: search_limit_def MAX_PAGE_SIZE_def)
  have c: "requested_limit req = NaN \<or> requested_limit req = Number 0 \<longrightarrow> search_limit req = 50"
    by (auto simp: search_limit_def MAX_PAGE_SIZE_def or_default_def)
  have d: "query_param req ''limit'' = None \<longrightarrow> requested_limit req = NaN"
    by (simp add: requested_limit_def parseInt_query_def parseInt_str_examples)
  have e: "\<forall>n. requested_limit req = Number n \<and> n \<noteq> 0 \<longrightarrow> search_limit req = min n 200"
    by (simp add: search_limit_def MAX_PAGE_SIZE_def or_default_def)
  have f: "1 \<le> search_limit req \<longleftrightarrow> \<not> (\<exists>n. requested_limit req = Number n \<and> n < 0)"
    by (cases "requested_limit req")
       (auto simp: search_limit_def MAX_PAGE_SIZE_def or_default_def)
  from a b c d e f so_limit_search_filter [of jp req] show ?thesis by blast
qed

theorem search_limit_capped_not_floored_witness:
  "queueMap [mock_queue ''q''] (params_name negative_limit_request) = Some (mock_queue ''q'')
   \<and> requested_limit negative_limit_request = Number (- 5)
   \<and> search_limit negative_limit_request = - 5
   \<and> snd (search (\<lambda>s. None) [mock_queue ''q''] negative_limit_request)
      = [(SearchJobs ''q'' (search_filter (\<lambda>s. None) negative_limit_request), None)]"
proof -
  have q: "queueMap [mock_queue ''q''] (params_name negative_limit_request) = Some (mock_queue ''q'')"
    by (simp add: queueMap_def mock_queue_def negative_limit_request_def)
  have r: "requested_limit negative_limit_request = Number (- 5)"
    by (simp add: requested_limit_def query_param_def negative_limit_request_def
          parseInt_query_def parseInt_str_examples)
  have f: "failure (searchJobs (mock_queue ''q'') (search_filter (\<lambda>s. None) negative_limit_request)) = None"
    by (simp add: failure_def mock_queue_def)
  have n: "qname (mock_queue ''q'') = ''q''"
    by (simp add: mock_queue_def)
  show ?thesis
    using search_limit_capped_not_floored [OF q, of "\<lambda>s. None"] q r f n by simp
qed

text \<open>
  Claim C9 as stated fails for \<^verbatim>\<open>limit=-5\<close>: the engine is called with the limit \<open>-5\<close>, which is
  below 1.
\<close>

theorem search_negative_limit_counterexample:
  "snd (search (\<lambda>s. None) [mock_queue ''q''] negative_limit_request)
     = [(SearchJobs ''q''
           \<lparr>so_state = None, so_name = None, so_data = None, so_limit = Some (- 5)\<rparr>, None)]"
proof -
  have q: "queueMap [mock_queue ''q''] (params_name negative_limit_request) = Some (mock_queue ''q'')"
    by (simp add: queueMap_def mock_queue_def negative_limit_request_def)
  have sf: "search_filter (\<lambda>s. None) negative_limit_request
              = \<lparr>so_state = None, so_name = None, so_data = None, so_limit = Some (- 5)\<rparr>"
    by (simp add: search_filter_def Let_def query_param_def negative_limit_request_def truthy_def
          parseInt_query_def parseInt_str_examples or_default_def MAX_PAGE_SIZE_def)
  show ?thesis
    by (simp add: search_known [OF q] sf) (simp add: mock_queue_def failure_def)
qed

lemma list_dlq_known:
  assumes "queueMap queues (params_name req) = Some q"
  shows "list_dlq queues req =
     ((case await (getDeadLetterJobs q (page_start req) (page_end req)) of
         Inl e \<Rightarrow> safeError e
       | Inr jobs \<Rightarrow> Responded 200 (JArr (map serializeJob jobs))),
      [(GetDeadLetterJobs (qname q) (page_start req) (page_end req),
        failure (getDeadLetterJobs q (page_start req) (page_end req)))])"
  using assms by (simp add: list_dlq_def try_one_call Let_def)

lemma list_jobs_of_state_eq:
  "try_catch (list_jobs_of_state q s a b) =
     ((case await (getJobs q s a b) of
         Inl e \<Rightarrow> safeError e
       | Inr jobs \<Rightarrow> Responded 200 (JArr (map (\<lambda>j. tagged_job j s) jobs))),
      [(GetJobs (qname q) s a b, failure (getJobs q s a b))])"
  by (simp add: list_jobs_of_state_def try_one_call)

lemma list_jobs_with_state:
  assumes "queueMap queues (params_name req) = Some q"
    and "query_param req ''state'' = Some s" and "s \<in> set VALID_STATES"
  shows "list_jobs queues done_at req =
     ((case await (getJobs q s (page_start req) (page_end req)) of
         Inl e \<Rightarrow> safeError e
       | Inr jobs \<Rightarrow> Responded 200 (JArr (map (\<lambda>j. tagged_job j s) jobs))),
      [(GetJobs (qname q) s (page_start req) (page_end req),
        failure (getJobs q s (page_start req) (page_end req)))])"
proof -
  have "s \<noteq> []" using assms(3) by (auto simp: VALID_STATES_def)
  then show ?thesis
    using assms by (simp add: list_jobs_def Let_def truthy_def str_of_def list_jobs_of_state_eq)
qed

text \<open>
  Claim C4, as amended. For every pagination request (the job listing with a state filter and
  the dead-letter listing pass this window to the engine), \<^verbatim>\<open>start\<close> is the parsed parameter,
  or 0 when it is missing or has no leading integer: a negative value is kept. The end of the
  window is 20 when the \<^verbatim>\<open>end\<close> parameter is missing or has no leading integer, and otherwise
  the smaller of the parsed parameter and \<open>start + 200\<close>. Hence \<open>end \<le> start + 200\<close> whenever
  \<^verbatim>\<open>end\<close> is given as a number or \<^verbatim>\<open>start\<close> is not negative, and \<open>0 \<le> start \<le> end \<le> start + 200\<close>
  holds exactly when \<^verbatim>\<open>start\<close> is not negative and does not exceed the requested end (20 when
  none is given).
\<close>

theorem page_window_bounds:
  "page_start req = (case requested_start req of NaN \<Rightarrow> 0 | Number n \<Rightarrow> n)
   \<and> page_end req = (case requested_end req of NaN \<Rightarrow> 20
                     | Number e \<Rightarrow> min e (page_start req + 200))
   \<and> (requested_end req \<noteq> NaN \<or> 0 \<le> page_start req \<longrightarrow> page_end req \<le> page_start req + 200)
   \<and> (0 \<le> page_start req \<and> page_start req \<le> page_end req \<and> page_end req \<le> page_start req + 200
        \<longleftrightarrow> 0 \<le> page_start req
            \<and> page_start req \<le> (case requested_end req of NaN \<Rightarrow> 20 | Number e \<Rightarrow> e))
   \<and> (\<forall>q. queueMap queues (params_name req) = Some q \<longrightarrow>
          snd (list_dlq queues req)
            = [(GetDeadLetterJobs (qname q) (page_start req) (page_end req),
                failure (getDeadLetterJobs q (page_start req) (page_end req)))])
   \<and> (\<forall>q s. queueMap queues (params_name req) = Some q \<and> query_param req ''state'' = Some s
          \<and> s \<in> set VALID_STATES \<longrightarrow>
          snd (list_jobs queues done_at req)
            = [(GetJobs (qname q) s (page_start req) (page_end req),
                failure (getJobs q s (page_start req) (page_end req)))])"
proof -
  have a: "page_start req = (case requested_start req of NaN \<Rightarrow> 0 | Number n \<Rightarrow> n)"
    by (simp add: page_start_def requested_start_def or_default_def split: jsnum.splits)
  have b: "page_end req = (case requested_end req of NaN \<Rightarrow> 20
                     | Number e \<Rightarrow> min e (page_start req + 200))"
    by (simp add: page_end_def requested_end_def MAX_PAGE_SIZE_def split: jsnum.splits)
  have c: "requested_end req \<noteq> NaN \<or> 0 \<le> page_start req \<longrightarrow> page_end req \<le> page_start req + 200"
    by (cases "requested_end req") (auto simp: b)
  have d: "0 \<le> page_start req \<and> page_start req \<le> page_end req \<and> page_end req \<le> page_start req + 200
        \<longleftrightarrow> 0 \<le> page_start req
            \<and> page_start req \<le> (case requested_end req of NaN \<Rightarrow> 20 | Number e \<Rightarrow> e)"
    by (cases "requested_end req") (auto simp: b)
  have e: "\<forall>q. queueMap queues (params_name req) = Some q \<longrightarrow>
          snd (list_dlq queues req)
            = [(GetDeadLetterJobs (qname q) (page_start req) (page_end req),
                failure (getDeadLetterJobs q (page_start req) (page_end req)))]"
    by (simp add: list_dlq_known)
  have f: "\<forall>q s. queueMap queues (params_name req) = Some q \<and> query_param req ''state'' = Some s
          \<and> s \<in> set VALID_STATES \<longrightarrow>
          snd (list_jobs queues done_at req)
            = [(GetJobs (qname q) s (page_start req) (page_end req),
                failure (getJobs q s (page_start req) (page_end req)))]"
    by (simp add: list_jobs_with_state)
  from a b c d e f show ?thesis by blast
qed

theorem page_window_bounds_witness:
  "requested_end (page_request ''q'' [(''state'', ''waiting''), (''start'', ''0''), (''end'', ''99999'')])
     \<noteq> NaN
   \<and> queueMap [mock_queue ''q'']
        (params_name (page_request ''q'' [(''state'', ''waiting''), (''start'', ''0''), (''end'', ''99999'')]))
      = Some (mock_queue ''q'')
   \<and> snd (list_jobs [mock_queue ''q''] in_order
            (page_request ''q'' [(''state'', ''waiting''), (''start'', ''0''), (''end'', ''99999'')]))
      = [(GetJobs ''q'' ''waiting'' 0 200, None)]
   \<and> snd (list_dlq [mock_queue ''q'']
            (page_request ''q'' [(''state'', ''waiting''), (''start'', ''0''), (''end'', ''99999'')]))
      = [(GetDeadLetterJobs ''q'' 0 200, None)]"
proof -
  let ?req = "page_request ''q'' [(''state'', ''waiting''), (''start'', ''0''), (''end'', ''99999'')]"
  have q: "queueMap [mock_queue ''q''] (params_name ?req) = Some (mock_queue ''q'')"
    by (simp add: queueMap_def mock_queue_def page_request_def)
  have st: "query_param ?req ''state'' = Some ''waiting''"
    by (simp add: query_param_def page_request_def)
  have v: "''waiting'' \<in> set VALID_STATES"
    by (simp add: VALID_STATES_def)
  have rs: "requested_start ?req = Number 0"
    by (simp add: requested_start_def query_param_def page_request_def parseInt_query_def
          parseInt_str_examples)
  have re: "requested_end ?req = Number 99999"
    by (simp add: requested_end_def query_param_def page_request_def parseInt_query_def
          parseInt_str_examples)
  have f: "failure (getJobs (mock_queue ''q'') ''waiting'' 0 200) = None"
          "failure (getDeadLetterJobs (mock_queue ''q'') 0 200) = None"
          "qname (mock_queue ''q'') = ''q''"
    by (simp_all add: failure_def mock_queue_def)
  show ?thesis
    using page_window_bounds [of ?req "[mock_queue ''q'']"] q st v rs re f by simp
qed

text \<open>
  Claim C4 as stated fails: \<^verbatim>\<open>start=-5\<close> reaches the engine as the window \<open>(-5, 20)\<close>, and
  \<^verbatim>\<open>start=100\<close>, alone or with \<^verbatim>\<open>end=5\<close>, gives a window that ends before it starts.
\<close>

theorem page_window_counterexample:
  "snd (list_dlq [mock_queue ''q''] (page_request ''q'' [(''start'', ''-5'')]))
     = [(GetDeadLetterJobs ''q'' (- 5) 20, None)]
   \<and> snd (list_jobs [mock_queue ''q''] in_order (page_request ''q'' [(''state'', ''waiting''), (''start'', ''100'')]))
     = [(GetJobs ''q'' ''waiting'' 100 20, None)]
   \<and> snd (list_jobs [mock_queue ''q''] in_order
            (page_request ''q'' [(''state'', ''waiting''), (''start'', ''100''), (''end'', ''5'')]))
     = [(GetJobs ''q'' ''waiting'' 100 5, None)]"
proof -
  have q: "\<And>qs. queueMap [mock_queue ''q''] (params_name (page_request ''q'' qs)) = Some (mock_queue ''q'')"
    by (simp add: queueMap_def mock_queue_def page_request_def)
  have v: "''waiting'' \<in> set VALID_STATES"
    by (simp add: VALID_STATES_def)
  have f: "\<And>s a b. failure (getJobs (mock_queue ''q'') s a b) = None"
          "\<And>a b. failure (getDeadLetterJobs (mock_queue ''q'') a b) = None"
          "qname (mock_queue ''q'') = ''q''"
    by (simp_all add: failure_def mock_queue_def)
  have 1: "snd (list_dlq [mock_queue ''q''] (page_request ''q'' [(''start'', ''-5'')]))
     = [(GetDeadLetterJobs ''q'' (- 5) 20, None)]"
    by (simp add: list_dlq_known [OF q] f)
       (simp add: page_start_def page_end_def query_param_def page_request_def parseInt_query_def
          parseInt_str_examples or_default_def)
  have 2: "snd (list_jobs [mock_queue ''q''] in_order (page_request ''q'' [(''state'', ''waiting''), (''start'', ''100'')]))
     = [(GetJobs ''q'' ''waiting'' 100 20, None)]"
    by (subst list_jobs_with_state [OF q _ v])
       (simp_all add: f page_start_def page_end_def query_param_def page_request_def
          parseInt_query_def parseInt_str_examples or_default_def)
  have 3: "snd (list_jobs [mock_queue ''q''] in_order
            (page_request ''q'' [(''state'', ''waiting''), (''start'', ''100''), (''end'', ''5'')]))
     = [(GetJobs ''q'' ''waiting'' 100 5, None)]"
    by (subst list_jobs_with_state [OF q _ v])
       (simp_all add: f page_start_def page_end_def query_param_def page_request_def
          parseInt_query_def parseInt_str_examples or_default_def MAX_PAGE_SIZE_def)
  from 1 2 3 show ?thesis by blast
qed

lemma valid_states_joined:
  "join '', '' VALID_STATES = ''waiting, active, delayed, completed, failed''"
  by (simp add: VALID_STATES_def)

lemma single_call_task:
  "and_then (invoke c r) (\<lambda>v. finish (f v))
     = ([(c, failure r)], case await r of Inl e \<Rightarrow> Inl e | Inr v \<Rightarrow> Inr (f v))"
  by (simp add: and_then_def invoke_def finish_def split: sum.splits)

lemma promise_all_Cons:
  "promise_all (m # ms) =
     (fst m @ fst (promise_all ms),
      case snd m of
        Inl e \<Rightarrow> Inl e
      | Inr v \<Rightarrow> (case snd (promise_all ms) of Inl e \<Rightarrow> Inl e | Inr vs \<Rightarrow> Inr (v # vs)))"
  by (cases m; cases "promise_all ms") (simp split: sum.splits)







lemma try_catch_pair:
  "try_catch (tr, r) = ((case r of Inl e \<Rightarrow> safeError e | Inr out \<Rightarrow> out), tr)"
  by (simp add: try_catch_def split: sum.splits)

lemma collect_Cons:
  "collect (r # rs) =
     (case r of
        Inl e \<Rightarrow> Inl e
      | Inr v \<Rightarrow> (case collect rs of Inl e \<Rightarrow> Inl e | Inr vs \<Rightarrow> Inr (v # vs)))"
  by (cases r) simp_all

lemma collect_values:
  "\<forall>s \<in> set xs. g s = Inr (v s) \<Longrightarrow> collect (map g xs) = Inr (map v xs)"
  by (induction xs) (simp_all add: collect_Cons)

lemma collect_Inl:
  "collect (map g xs) = Inl e \<Longrightarrow> \<exists>s \<in> set xs. g s = Inl e"
  by (induction xs) (auto simp add: collect_Cons split: sum.splits)

lemma collect_Inr:
  "collect (map g xs) = Inr vs \<Longrightarrow> \<forall>s \<in> set xs. \<exists>v. g s = Inr v"
  by (induction xs arbitrary: vs) (auto simp add: collect_Cons split: sum.splits)


lemma set_completion_order: "set (completion_order done_at) = set VALID_STATES"
  by (simp add: completion_order_def)

lemma list_jobs_all_states_eq:
  "list_jobs_all_states q done_at a e =
     (map (\<lambda>s. (GetJobs (qname q) s 0 e, failure (getJobs q s 0 e))) VALID_STATES,
      case collect (map (fetch_outcome q e) (completion_order done_at)) of
        Inl x \<Rightarrow> Inl x
      | Inr pushed \<Rightarrow>
          Inr (Responded 200 (JArr (js_slice (sort_newest_first (concat pushed)) a e))))"
proof -
  have "(\<lambda>s. case await (getJobs q s 0 e) of
               Inl x \<Rightarrow> Inl x
             | Inr jobs \<Rightarrow> Inr (map (\<lambda>j. tagged_job j s) jobs)) = fetch_outcome q e"
    by (simp add: fetch_outcome_def fun_eq_iff)
  then show ?thesis
    by (simp add: list_jobs_all_states_def Let_def single_call_task)
qed

lemma list_jobs_without_state:
  assumes "queueMap queues (params_name req) = Some q"
    and "\<not> truthy (query_param req ''state'')"
  shows "list_jobs queues done_at req =
     ((case collect (map (fetch_outcome q (page_end req)) (completion_order done_at)) of
         Inl x \<Rightarrow> safeError x
       | Inr pushed \<Rightarrow>
           Responded 200
             (JArr (js_slice (sort_newest_first (concat pushed)) (page_start req) (page_end req)))),
      map (\<lambda>s. (GetJobs (qname q) s 0 (page_end req),
                 failure (getJobs q s 0 (page_end req)))) VALID_STATES)"
  using assms
  by (simp add: list_jobs_def Let_def list_jobs_all_states_eq try_catch_pair split: sum.splits)

lemma fetch_outcome_values:
  assumes "\<forall>s \<in> set VALID_STATES. await (getJobs q s 0 e) = Inr (fetched s)"
  shows "collect (map (fetch_outcome q e) (completion_order done_at))
           = Inr (map (\<lambda>s. map (\<lambda>j. tagged_job j s) (fetched s)) (completion_order done_at))"
  by (rule collect_values) (simp add: assms fetch_outcome_def set_completion_order)






lemma completion_order_examples:
  "completion_order failed_first = [''failed'', ''waiting'', ''active'', ''delayed'', ''completed'']"
  "completion_order in_order = VALID_STATES"
  by (simp_all add: completion_order_def VALID_STATES_def failed_first_def in_order_def)



lemma query_without:
  "k' \<noteq> k \<Longrightarrow> map_of (filter (\<lambda>kv. fst kv \<noteq> k) kvs) k' = map_of kvs k'"
  by (induction kvs) auto

lemma query_without_self: "map_of (filter (\<lambda>kv. fst kv \<noteq> k) kvs) k = None"
  by (induction kvs) auto

lemma empty_state_is_no_filter:
  assumes "query_param req ''state'' = Some []"
  shows "list_jobs queues done_at req
           = list_jobs queues done_at
               (req\<lparr>query := filter (\<lambda>kv. fst kv \<noteq> ''state'') (query req)\<rparr>)"
proof -
  let ?req' = "req\<lparr>query := filter (\<lambda>kv. fst kv \<noteq> ''state'') (query req)\<rparr>"
  have st: "\<not> truthy (query_param req ''state'')" "\<not> truthy (query_param ?req' ''state'')"
    using assms by (simp_all add: truthy_def query_param_def query_without_self)
  have "query_param ?req' ''start'' = query_param req ''start''"
       "query_param ?req' ''end'' = query_param req ''end''"
    by (simp_all add: query_param_def query_without)
  then have ps: "page_start ?req' = page_start req"
    and "parseInt_query (query_param ?req' ''end'') = parseInt_query (query_param req ''end'')"
    by (simp_all add: page_start_def)
  then have pg: "page_start ?req' = page_start req" "page_end ?req' = page_end req"
    by (simp_all only: page_end_def)
  show ?thesis
    using st pg by (simp add: list_jobs_def Let_def split: option.splits)
qed

text \<open>
  Claim C7, as amended. A job-listing request on a registered queue whose \<^verbatim>\<open>state\<close> parameter
  is a non-empty string other than the five job states is answered with 400; the message
  names the value and lists the five states, and no engine call is made. A \<^verbatim>\<open>state\<close>
  parameter that is present and empty is treated as no filter: the request is served as the
  same request without the parameter.
\<close>

theorem invalid_state_rejected:
  assumes "queueMap queues (params_name req) = Some q"
    and "query_param req ''state'' = Some s"
    and "s \<noteq> []"
    and "s \<notin> set VALID_STATES"
  shows "list_jobs queues done_at req
           = (Responded 400
                (error_body (''Invalid state: '' @ s
                   @ ''. Must be one of: waiting, active, delayed, completed, failed'')),
              [])
         \<and> (\<forall>req'. query_param req' ''state'' = Some [] \<longrightarrow>
               list_jobs queues done_at req'
                 = list_jobs queues done_at
                     (req'\<lparr>query := filter (\<lambda>kv. fst kv \<noteq> ''state'') (query req')\<rparr>))"
  using assms empty_state_is_no_filter
  by (simp add: list_jobs_def Let_def truthy_def str_of_def valid_states_joined)

theorem invalid_state_rejected_witness:
  "queueMap [mock_queue ''q''] (params_name (page_request ''q'' [(''state'', ''invalid'')]))
     = Some (mock_queue ''q'')
   \<and> query_param (page_request ''q'' [(''state'', ''invalid'')]) ''state'' = Some ''invalid''
   \<and> ''invalid'' \<noteq> []
   \<and> ''invalid'' \<notin> set VALID_STATES
   \<and> list_jobs [mock_queue ''q''] in_order (page_request ''q'' [(''state'', ''invalid'')])
      = (Responded 400
           (error_body
              ''Invalid state: invalid. Must be one of: waiting, active, delayed, completed, failed''),
         [])
   \<and> query_param (page_request ''q'' [(''state'', []), (''end'', ''5'')]) ''state'' = Some []
   \<and> list_jobs [mock_queue ''q''] in_order (page_request ''q'' [(''state'', []), (''end'', ''5'')])
      = list_jobs [mock_queue ''q''] in_order (page_request ''q'' [(''end'', ''5'')])"
proof -
  let ?req = "page_request ''q'' [(''state'', ''invalid'')]"
  let ?empty = "page_request ''q'' [(''state'', []), (''end'', ''5'')]"
  have q: "queueMap [mock_queue ''q''] (params_name ?req) = Some (mock_queue ''q'')"
    by (simp add: queueMap_def mock_queue_def page_request_def)
  have st: "query_param ?req ''state'' = Some ''invalid''"
    by (simp add: query_param_def page_request_def)
  have ne: "''invalid'' \<noteq> []" by simp
  have nv: "''invalid'' \<notin> set VALID_STATES"
    by (simp add: VALID_STATES_def)
  have es: "query_param ?empty ''state'' = Some []"
    by (simp add: query_param_def page_request_def)
  have without: "?empty\<lparr>query := filter (\<lambda>kv. fst kv \<noteq> ''state'') (query ?empty)\<rparr>
                   = page_request ''q'' [(''end'', ''5'')]"
    by (simp add: page_request_def)
  note claim = invalid_state_rejected [OF q st ne nv, of in_order]
  from claim have "list_jobs [mock_queue ''q''] in_order ?empty
      = list_jobs [mock_queue ''q''] in_order
          (?empty\<lparr>query := filter (\<lambda>kv. fst kv \<noteq> ''state'') (query ?empty)\<rparr>)"
    using es by blast
  then have served: "list_jobs [mock_queue ''q''] in_order ?empty
      = list_jobs [mock_queue ''q''] in_order (page_request ''q'' [(''end'', ''5'')])"
    by (simp only: without)
  from claim have "list_jobs [mock_queue ''q''] in_order ?req
      = (Responded 400
           (error_body (''Invalid state: '' @ ''invalid''
                   @ ''. Must be one of: waiting, active, delayed, completed, failed'')),
         [])"
    by blast
  then show ?thesis
    using q st nv es served by simp
qed


text \<open>
  Claim C7 as stated fails for a state parameter that is present and empty: the empty string
  is none of the five states, yet the request is served as a listing without a filter, with
  status 200 and five engine calls.
\<close>

theorem empty_state_counterexample:
  "query_param (page_request ''q'' [(''state'', [])]) ''state'' = Some []
   \<and> [] \<notin> set VALID_STATES
   \<and> list_jobs [mock_queue ''q''] in_order (page_request ''q'' [(''state'', [])])
      = (Responded 200 (JArr []),
         [(GetJobs ''q'' ''waiting'' 0 20, None), (GetJobs ''q'' ''active'' 0 20, None),
          (GetJobs ''q'' ''delayed'' 0 20, None), (GetJobs ''q'' ''completed'' 0 20, None),
          (GetJobs ''q'' ''failed'' 0 20, None)])"
proof -
  let ?req = "page_request ''q'' [(''state'', [])]"
  have q: "queueMap [mock_queue ''q''] (params_name ?req) = Some (mock_queue ''q'')"
    by (simp add: queueMap_def mock_queue_def page_request_def)
  have st: "query_param ?req ''state'' = Some []"
    by (simp add: query_param_def page_request_def)
  have nt: "\<not> truthy (query_param ?req ''state'')"
    by (simp add: st truthy_def)
  have pe: "page_end ?req = 20" and ps: "page_start ?req = 0"
    by (simp_all add: page_end_def page_start_def query_param_def page_request_def
          parseInt_query_def parseInt_str_examples or_default_def)
  have f: "\<forall>s \<in> set VALID_STATES. await (getJobs (mock_queue ''q'') s 0 20) = Inr []"
    by (simp add: mock_queue_def)
  have v: "collect (map (fetch_outcome (mock_queue ''q'') 20) (completion_order in_order))
             = Inr (map (\<lambda>s. map (\<lambda>j. tagged_job j s) []) (completion_order in_order))"
    using f by (rule fetch_outcome_values)
  have fl: "\<And>s. failure (getJobs (mock_queue ''q'') s 0 20) = None"
    and n: "qname (mock_queue ''q'') = ''q''"
    by (simp_all add: failure_def mock_queue_def)
  have "list_jobs [mock_queue ''q''] in_order ?req
      = (Responded 200 (JArr []),
         [(GetJobs ''q'' ''waiting'' 0 20, None), (GetJobs ''q'' ''active'' 0 20, None),
          (GetJobs ''q'' ''delayed'' 0 20, None), (GetJobs ''q'' ''completed'' 0 20, None),
          (GetJobs ''q'' ''failed'' 0 20, None)])"
    by (simp add: list_jobs_without_state [OF q nt] pe ps v fl n)
       (simp add: VALID_STATES_def js_slice_def sort_newest_first_def completion_order_examples)
  then show ?thesis using st by (simp add: VALID_STATES_def)
qed

section \<open>Engine failures\<close>

lemma consistent_invoke: "is_engine_call c \<Longrightarrow> consistent (invoke c r)"
  by (cases r) (simp_all add: consistent_def invoke_def failure_def)

lemma consistent_finish: "consistent (finish v)"
  by (simp add: consistent_def finish_def)

lemma consistent_and_then:
  assumes "consistent m" and "\<And>v. consistent (f v)"
  shows "consistent (and_then m f)"
proof (cases m)
  case (Pair tr res)
  show ?thesis
  proof (cases res)
    case (Inl e)
    with Pair assms(1) show ?thesis by (simp add: consistent_def and_then_def)
  next
    case (Inr v)
    obtain tr' res' where fv: "f v = (tr', res')" by (cases "f v")
    from assms(2) [of v] fv have c': "consistent (tr', res')" by simp
    from Pair Inr assms(1) have c: "\<forall>x \<in> set tr. is_engine_call (fst x) \<and> snd x = None"
      by (simp add: consistent_def)
    show ?thesis
      using c c' Pair Inr fv
      by (cases res') (auto simp: consistent_def and_then_def)
  qed
qed

lemma consistent_promise_all:
  "\<forall>m \<in> set ms. consistent m \<Longrightarrow> consistent (promise_all ms)"
proof (induction ms)
  case Nil
  then show ?case by (simp add: consistent_def)
next
  case (Cons m ms)
  then have m: "consistent m" and ms: "consistent (promise_all ms)" by simp_all
  show ?case
    using m ms
    by (cases "snd m"; cases "snd (promise_all ms)")
       (auto simp: promise_all_Cons consistent_def simp del: promise_all.simps(2))
qed

lemma consistent_promise_both:
  "consistent m1 \<Longrightarrow> consistent m2 \<Longrightarrow> consistent (promise_both m1 m2)"
  by (cases m1; cases m2; cases "snd m1"; cases "snd m2")
     (auto simp: promise_both_def consistent_def)

lemma reported_try_catch: "consistent m \<Longrightarrow> failures_reported (try_catch m)"
  by (cases m; cases "snd m") (auto simp: consistent_def failures_reported_def try_catch_def)

lemma reported_without_calls: "failures_reported (out, [])"
  by (simp add: failures_reported_def)

lemma reported_not_found: "failures_reported (not_found what)"
  by (simp add: not_found_def reported_without_calls)

lemmas consistent_intros = consistent_invoke consistent_finish consistent_and_then
  consistent_promise_all consistent_promise_both


lemma consistent_option_case:
  "consistent a \<Longrightarrow> (\<And>j. consistent (b j)) \<Longrightarrow>
   consistent (case found of None \<Rightarrow> a | Some j \<Rightarrow> b j)"
  by (cases found) simp_all

lemma consistent_pair_case:
  "(\<And>a b. consistent (f a b)) \<Longrightarrow> consistent (case p of (a, b) \<Rightarrow> f a b)"
  by (cases p) simp

lemmas consistent_rules = consistent_intros consistent_option_case consistent_pair_case

lemma reported_list_queues: "failures_reported (list_queues queues)"
  unfolding list_queues_def
  by (intro reported_try_catch consistent_rules ballI) (auto intro!: consistent_rules)

lemma consistent_list_jobs_all_states: "consistent (list_jobs_all_states q done_at a e)"
proof (cases "collect (map (fetch_outcome q e) (completion_order done_at))")
  case (Inl x)
  then obtain s where "s \<in> set VALID_STATES" and "fetch_outcome q e s = Inl x"
    using collect_Inl [of "fetch_outcome q e" "completion_order done_at" x]
    by (auto simp: set_completion_order)
  then have "(GetJobs (qname q) s 0 e, Some x)
               \<in> (\<lambda>s. (GetJobs (qname q) s 0 e, failure (getJobs q s 0 e))) ` set VALID_STATES"
    by (auto simp: fetch_outcome_def failure_def image_iff split: sum.splits)
  with Inl show ?thesis
    by (auto simp: list_jobs_all_states_eq consistent_def)
next
  case (Inr pushed)
  then have "\<forall>s \<in> set VALID_STATES. \<exists>v. fetch_outcome q e s = Inr v"
    using collect_Inr [of "fetch_outcome q e" "completion_order done_at" pushed]
    by (simp add: set_completion_order)
  then have "\<forall>s \<in> set VALID_STATES. failure (getJobs q s 0 e) = None"
    by (auto simp: fetch_outcome_def failure_def split: sum.splits)
  with Inr show ?thesis
    by (auto simp: list_jobs_all_states_eq consistent_def)
qed

lemma reported_list_jobs: "failures_reported (list_jobs queues done_at req)"
proof (cases "queueMap queues (params_name req)")
  case None
  then show ?thesis by (simp add: list_jobs_def reported_not_found)
next
  case (Some q)
  have a: "consistent (list_jobs_of_state q s a b)" for s a b
    unfolding list_jobs_of_state_def by (intro consistent_rules) simp
  show ?thesis
    using Some
    by (simp add: list_jobs_def Let_def reported_without_calls reported_try_catch a
          consistent_list_jobs_all_states)
qed

lemma reported_show_job: "failures_reported (show_job queues req)"
proof (cases "queueMap queues (params_name req)")
  case None
  then show ?thesis by (simp add: show_job_def reported_not_found)
next
  case (Some q)
  show ?thesis
    unfolding show_job_def Some option.case Let_def
    by (intro reported_try_catch consistent_rules) simp_all
qed

lemma reported_list_workers: "failures_reported (list_workers queues req)"
proof (cases "queueMap queues (params_name req)")
  case None
  then show ?thesis by (simp add: list_workers_def reported_not_found)
next
  case (Some q)
  show ?thesis
    unfolding list_workers_def Some option.case
    by (intro reported_try_catch consistent_rules) simp_all
qed

lemma reported_list_schedulers: "failures_reported (list_schedulers queues req)"
proof (cases "queueMap queues (params_name req)")
  case None
  then show ?thesis by (simp add: list_schedulers_def reported_not_found)
next
  case (Some q)
  show ?thesis
    unfolding list_schedulers_def Some option.case
    by (intro reported_try_catch consistent_rules) simp_all
qed

lemma reported_list_dlq: "failures_reported (list_dlq queues req)"
proof (cases "queueMap queues (params_name req)")
  case None
  then show ?thesis by (simp add: list_dlq_def reported_not_found)
next
  case (Some q)
  show ?thesis
    unfolding list_dlq_def Some option.case Let_def
    by (intro reported_try_catch consistent_rules) simp_all
qed

lemma reported_show_metrics: "failures_reported (show_metrics queues req)"
proof (cases "queueMap queues (params_name req)")
  case None
  then show ?thesis by (simp add: show_metrics_def reported_not_found)
next
  case (Some q)
  show ?thesis
    unfolding show_metrics_def Some option.case
    by (intro reported_try_catch consistent_rules) simp_all
qed

lemma reported_search: "failures_reported (search jp queues req)"
proof (cases "queueMap queues (params_name req)")
  case None
  then show ?thesis by (simp add: search_def reported_not_found)
next
  case (Some q)
  show ?thesis
    unfolding search_def Some option.case Let_def
    by (intro reported_try_catch consistent_rules) simp_all
qed

lemma reported_read_route: "failures_reported (read_only_route r jp done_at queues req)"
  by (cases r)
     (simp_all add: reported_list_queues reported_list_jobs reported_show_job
        reported_list_workers reported_list_schedulers reported_list_dlq reported_show_metrics
        reported_search)

lemma reported_rest: "failures_reported (rest_of r queues req)"
proof (cases "queueMap queues (params_name req)")
  case None
  then show ?thesis by (cases r) (simp_all add: rest_defs reported_not_found)
next
  case (Some q)
  show ?thesis
  proof (cases r)
    case PostPause
    show ?thesis
      unfolding PostPause rest_of.simps pause_rest_def Some option.case
      by (intro reported_try_catch consistent_rules) simp_all
  next
    case PostResume
    show ?thesis
      unfolding PostResume rest_of.simps resume_rest_def Some option.case
      by (intro reported_try_catch consistent_rules) simp_all
  next
    case PostObliterate
    show ?thesis
      unfolding PostObliterate rest_of.simps obliterate_rest_def Some option.case
      by (intro reported_try_catch consistent_rules) simp_all
  next
    case PostDrain
    show ?thesis
      unfolding PostDrain rest_of.simps drain_rest_def Some option.case Let_def
      by (intro reported_try_catch consistent_rules) simp_all
  next
    case PostRetryAll
    show ?thesis
    proof (cases "parseInt (body_field req ''count'')")
      case (Inl e)
      then show ?thesis
        by (simp add: PostRetryAll retry_all_rest_def Some reported_without_calls)
    next
      case (Inr parsed)
      show ?thesis
        unfolding PostRetryAll rest_of.simps retry_all_rest_def Some option.case Inr sum.case
          Let_def
        by (intro reported_try_catch consistent_rules) simp_all
    qed
  next
    case PostClean
    show ?thesis
    proof (cases "parseInt (body_field req ''grace'')")
      case (Inl e)
      then show ?thesis
        by (simp add: PostClean clean_rest_def Some reported_without_calls)
    next
      case grace: (Inr grace)
      show ?thesis
      proof (cases "parseInt (body_field req ''limit'')")
        case (Inl e)
        then show ?thesis
          by (simp add: PostClean clean_rest_def Some grace reported_without_calls)
      next
        case (Inr parsed_limit)
        show ?thesis
          unfolding PostClean rest_of.simps
          by (simp add: clean_rest_known [OF Some grace Inr] failures_reported_def failure_def
                split: jsnum.splits sum.splits json.splits)
      qed
    qed
  next
    case DeleteJob
    show ?thesis
      unfolding DeleteJob rest_of.simps remove_job_rest_def Some option.case Let_def
      by (intro reported_try_catch consistent_rules) simp_all
  next
    case PostJobRetry
    show ?thesis
      unfolding PostJobRetry rest_of.simps retry_job_rest_def Some option.case Let_def
      by (intro reported_try_catch consistent_rules) simp_all
  next
    case PostJobPromote
    show ?thesis
      unfolding PostJobPromote rest_of.simps promote_job_rest_def Some option.case Let_def
      by (intro reported_try_catch consistent_rules) simp_all
  qed
qed

lemma reported_mutation:
  assumes "(c, Some e) \<in> set (snd (mutation r queues opts req))" and "is_engine_call c"
  shows "\<exists>c' e'. (c', Some e') \<in> set (snd (mutation r queues opts req)) \<and> is_engine_call c'
            \<and> fst (mutation r queues opts req) = safeError e'"
proof -
  obtain gtr v where g: "guardMutation opts req (action_of r) = (gtr, v)"
    by (cases "guardMutation opts req (action_of r)")
  have gtr: "\<forall>x \<in> set gtr. \<not> is_engine_call (fst x)"
    using guard_trace_no_engine [of _ opts req "action_of r"] g by simp
  show ?thesis
  proof (cases v)
    case (Stop out)
    then have "snd (mutation r queues opts req) = gtr"
      by (simp add: mutation_is_guarded g guarded_split)
    with assms gtr show ?thesis by force
  next
    case Proceed
    then have m: "mutation r queues opts req
                  = (fst (rest_of r queues req), gtr @ snd (rest_of r queues req))"
      by (simp add: mutation_is_guarded g guarded_split)
    with assms gtr have "(c, Some e) \<in> set (snd (rest_of r queues req))" by force
    with reported_rest [of r queues req]
    obtain c' e' where "(c', Some e') \<in> set (snd (rest_of r queues req))"
      and "fst (rest_of r queues req) = safeError e'"
      and "is_engine_call c'"
      by (force simp: failures_reported_def)
    then show ?thesis by (auto simp: m)
  qed
qed


lemma list_queues_single:
  "list_queues [q] =
     (case await (getJobCounts q) of
        Inl e \<Rightarrow> (safeError e, [(GetJobCounts (qname q), Some e)])
      | Inr counts \<Rightarrow>
          (case await (isPaused q) of
             Inl e \<Rightarrow> (safeError e, [(GetJobCounts (qname q), None), (IsPaused (qname q), Some e)])
           | Inr paused \<Rightarrow>
               (Responded 200 (JArr [JObj [(''name'', JStr (qname q)), (''counts'', counts),
                                           (''paused'', JBool paused)]]),
                [(GetJobCounts (qname q), None), (IsPaused (qname q), None)])))"
  by (simp add: list_queues_def attempt_defs failure_def split: sum.splits)

text \<open>
  Claim C6, as amended. On every route of the REST interface, when an engine call of the
  handler fails, the response is 500 and its body is the object with the single field
  \<^verbatim>\<open>error\<close>, whose value belongs to one of the failed engine calls (to the failed call, when
  there is only one): the message of the \<^verbatim>\<open>Error\<close> it failed with, verbatim and without the
  stack trace, or the fixed text \<^verbatim>\<open>Internal server error\<close> when the value thrown is not an
  \<^verbatim>\<open>Error\<close>.
\<close>

theorem engine_failure_gives_500:
  assumes "(c, Some e) \<in> set (snd (handle r jp done_at queues opts req))" and "is_engine_call c"
  shows "(\<exists>c' e'. (c', Some e') \<in> set (snd (handle r jp done_at queues opts req)) \<and> is_engine_call c'
            \<and> fst (handle r jp done_at queues opts req)
                = Responded 500
                    (JObj [(''error'',
                            JStr (case e' of ErrorObj message stack \<Rightarrow> message
                                  | NonError v \<Rightarrow> ''Internal server error''))]))
         \<and> ((\<forall>c' e'. (c', Some e') \<in> set (snd (handle r jp done_at queues opts req)) \<longrightarrow> e' = e) \<longrightarrow>
              fst (handle r jp done_at queues opts req)
                = Responded 500
                    (JObj [(''error'',
                            JStr (case e of ErrorObj message stack \<Rightarrow> message
                                  | NonError v \<Rightarrow> ''Internal server error''))]))"
proof -
  have ex: "\<exists>c' e'. (c', Some e') \<in> set (snd (handle r jp done_at queues opts req)) \<and> is_engine_call c'
            \<and> fst (handle r jp done_at queues opts req) = safeError e'"
  proof (cases r)
    case (Reading rr)
    with assms reported_read_route [of rr jp done_at queues req] show ?thesis
      by (force simp: failures_reported_def)
  next
    case (Mutating mr)
    with assms reported_mutation [of c e mr queues opts req] show ?thesis by simp
  qed
  then show ?thesis
    by (auto simp: safeError_def error_body_def)
qed

theorem engine_failure_gives_500_witness:
  "(GetJobCounts ''q'', Some (ErrorObj ''Redis connection failed'' ''at connect''))
      \<in> set (snd (handle (Reading GetQueues) (\<lambda>s. None) in_order
                    [failing_queue ''q'' (ErrorObj ''Redis connection failed'' ''at connect'')]
                    None (mock_request [])))
   \<and> is_engine_call (GetJobCounts ''q'')
   \<and> fst (handle (Reading GetQueues) (\<lambda>s. None) in_order
             [failing_queue ''q'' (ErrorObj ''Redis connection failed'' ''at connect'')]
             None (mock_request []))
      = Responded 500 (JObj [(''error'', JStr ''Redis connection failed'')])"
proof -
  let ?e = "ErrorObj ''Redis connection failed'' ''at connect''"
  let ?h = "handle (Reading GetQueues) (\<lambda>s. None) in_order [failing_queue ''q'' ?e] None (mock_request [])"
  have tr: "snd ?h = [(GetJobCounts ''q'', Some ?e)]"
    by (simp add: list_queues_single failing_queue_def mock_queue_def)
  have 1: "(GetJobCounts ''q'', Some ?e) \<in> set (snd ?h)"
    unfolding tr by simp
  have 2: "is_engine_call (GetJobCounts ''q'')" by simp
  have 3: "\<forall>c' e'. (c', Some e') \<in> set (snd ?h) \<longrightarrow> e' = ?e"
    unfolding tr by simp
  from engine_failure_gives_500 [OF 1 2] 3
  have "fst ?h = Responded 500 (JObj [(''error'', JStr ''Redis connection failed'')])"
    by simp
  with 1 2 show ?thesis by blast
qed

text \<open>
  Claim C6 as stated fails when the engine rejects with a value that is not an \<^verbatim>\<open>Error\<close>, here
  the string \<^verbatim>\<open>Redis connection failed\<close>: the body does not carry the engine's text but
  \<^verbatim>\<open>Internal server error\<close>.
\<close>

theorem non_error_rejection_counterexample:
  "handle (Reading GetQueues) (\<lambda>s. None) in_order
     [failing_queue ''q'' (NonError (JStr ''Redis connection failed''))] None (mock_request [])
   = (Responded 500 (JObj [(''error'', JStr ''Internal server error'')]),
      [(GetJobCounts ''q'', Some (NonError (JStr ''Redis connection failed'')))])"
  by (simp add: list_queues_single failing_queue_def mock_queue_def safeError_def error_body_def)

section \<open>Properties of the live event stream\<close>

lemma remove_last_absent: "x \<notin> set xs \<Longrightarrow> remove_last x xs = xs"
  by (simp add: remove_last_def remove1_idem)

lemma listeners_fold_subscribe:
  "listeners (fold subscribe ls w) k = listeners w k @ handlers_at ls k"
  by (induction ls arbitrary: w)
     (auto simp: handlers_at_def subscribe_def emitter_on_def)

lemma fold_subscribe_fields:
  "next_handler (fold subscribe ls w) = next_handler w"
  "timers (fold subscribe ls w) = timers w"
  "next_timer (fold subscribe ls w) = next_timer w"
  by (induction ls arbitrary: w) (simp_all add: subscribe_def emitter_on_def)

lemma subscribe_next_handler:
  "subscribe l (w\<lparr>next_handler := n\<rparr>) = (subscribe l w)\<lparr>next_handler := n\<rparr>"
  by (simp add: subscribe_def emitter_on_def)

lemma fold_subscribe_next_handler:
  "fold subscribe ls (w\<lparr>next_handler := n\<rparr>) = (fold subscribe ls w)\<lparr>next_handler := n\<rparr>"
  by (induction ls arbitrary: w) (simp_all add: subscribe_next_handler)

lemma register_events_eq:
  "register_events qe evs (ls, w)
     = (ls @ subs_for qe evs (next_handler w),
        (fold subscribe (subs_for qe evs (next_handler w)) w)
          \<lparr>next_handler := next_handler w + length evs\<rparr>)"
proof (induction evs arbitrary: ls w)
  case Nil
  then show ?case by simp
next
  case (Cons ev evs)
  have step: "emitter_on qe ev (next_handler w) (w\<lparr>next_handler := Suc (next_handler w)\<rparr>)
          = (subscribe \<lparr>sub_source = qe, sub_event = ev, sub_handler = next_handler w\<rparr> w)
              \<lparr>next_handler := Suc (next_handler w)\<rparr>"
    by (simp add: subscribe_def emitter_on_def)
  have nh: "next_handler (subscribe \<lparr>sub_source = qe, sub_event = ev, sub_handler = next_handler w\<rparr> w)
          = next_handler w"
    by (simp add: subscribe_def emitter_on_def)
  show ?case
    by (simp add: Cons Let_def step fold_subscribe_next_handler nh)
qed

lemma register_sources_eq:
  "register_sources qes (ls, w)
     = (ls @ subs_all qes (next_handler w),
        (fold subscribe (subs_all qes (next_handler w)) w)
          \<lparr>next_handler := next_handler w + length eventNames * length qes\<rparr>)"
proof (induction qes arbitrary: ls w)
  case Nil
  then show ?case by simp
next
  case (Cons qe qes)
  show ?case
    by (simp add: Cons register_events_eq fold_subscribe_fields fold_subscribe_next_handler
          add.assoc)
qed

lemma upt_from: "[n ..< Suc (n + k)] = n # [Suc n ..< Suc (n + k)]"
  by (simp add: upt_rec)

lemma handlers_subs_for: "map sub_handler (subs_for qe evs n) = [n ..< n + length evs]"
proof (induction evs arbitrary: n)
  case Nil
  then show ?case by simp
next
  case (Cons ev evs)
  have "map sub_handler (subs_for qe (ev # evs) n) = n # [Suc n ..< Suc n + length evs]"
    by (simp only: subs_for.simps list.map subscription.simps Cons)
  also have "\<dots> = n # [Suc n ..< Suc (n + length evs)]" by simp
  also have "\<dots> = [n ..< Suc (n + length evs)]" by (rule upt_from [symmetric])
  finally show ?case by simp
qed

lemma handlers_subs_all:
  "map sub_handler (subs_all qes n) = [n ..< n + length eventNames * length qes]"
proof (induction qes arbitrary: n)
  case Nil
  then show ?case by simp
next
  case (Cons qe qes)
  have "[n ..< n + length eventNames] @ [n + length eventNames ..< n + length eventNames + length eventNames * length qes]
          = [n ..< n + length eventNames + length eventNames * length qes]"
    by (metis le_add1 upt_add_eq_append)
  then show ?case
    by (simp add: Cons handlers_subs_for add.assoc)
qed


lemma cleanup_fold:
  "cleanup c w = fold unsubscribe (conn_listeners c) (w\<lparr>timers := timers w - {heartbeat c}\<rparr>)"
proof -
  have "(\<lambda>l. emitter_removeListener (sub_source l) (sub_event l) (sub_handler l)) = unsubscribe"
    by (rule ext) (simp add: unsubscribe_def)
  then show ?thesis by (simp add: cleanup_def)
qed

lemma on_terminal_cleanup: "on_terminal t c w = cleanup c w"
  by (cases t) simp_all

lemma open_events_eq:
  "open_events opts w =
     (\<lparr>conn_status = 200,
       conn_headers = [(''Content-Type'', ''text/event-stream''),
                       (''Cache-Control'', ''no-cache''),
                       (''Connection'', ''keep-alive'')],
       conn_written = [[CHR 0x0A]],
       conn_listeners = subs_all (opt_queueEvents opts) (next_handler w),
       heartbeat = next_timer w\<rparr>,
      (fold subscribe (subs_all (opt_queueEvents opts) (next_handler w)) w)
        \<lparr>next_handler := next_handler w + length eventNames * length (opt_queueEvents opts),
         timers := insert (next_timer w) (timers w),
         next_timer := Suc (next_timer w)\<rparr>)"
  by (simp add: open_events_def register_sources_eq [of _ "[]", simplified] Let_def
        fold_subscribe_fields)

lemma fold_unsubscribe_fields:
  "next_handler (fold unsubscribe ls w) = next_handler w"
  "timers (fold unsubscribe ls w) = timers w"
  "next_timer (fold unsubscribe ls w) = next_timer w"
  by (induction ls arbitrary: w) (simp_all add: unsubscribe_def emitter_removeListener_def)

lemma remove_last_append_fresh:
  assumes "h \<notin> set A" and "distinct B"
  shows "remove_last h (A @ B) = A @ filter (\<lambda>x. x \<noteq> h) B"
proof (cases "h \<in> set B")
  case True
  have "remove1 h (rev B) = filter (\<lambda>x. x \<noteq> h) (rev B)"
    using assms(2) by (simp add: distinct_remove1_removeAll removeAll_filter_not_eq neq_commute)
  then have "rev (remove1 h (rev B)) = filter (\<lambda>x. x \<noteq> h) B"
    by (simp add: rev_filter)
  moreover have "remove_last h (A @ B) = A @ rev (remove1 h (rev B))"
    using True by (simp add: remove_last_def remove1_append)
  ultimately show ?thesis by simp
next
  case False
  then have "remove_last h (A @ B) = A @ B"
    using assms(1) by (simp add: remove_last_absent)
  moreover have "filter (\<lambda>x. x \<noteq> h) B = B"
    using False by (induction B) auto
  ultimately show ?thesis by simp
qed

lemma listeners_unsubscribe:
  "listeners (unsubscribe l w) k
     = (if k = (sub_source l, sub_event l) then remove_last (sub_handler l) (listeners w k)
        else listeners w k)"
  by (simp add: unsubscribe_def emitter_removeListener_def)

lemma handlers_at_Cons:
  "handlers_at (l # ls) k
     = (if (sub_source l, sub_event l) = k then sub_handler l # handlers_at ls k
        else handlers_at ls k)"
  by (simp add: handlers_at_def)

lemma listeners_fold_unsubscribe:
  assumes "\<forall>k. listeners w k = A k @ B k"
    and "\<forall>l \<in> set ls. \<forall>k. sub_handler l \<notin> set (A k)"
    and "\<forall>k. distinct (B k)"
  shows "listeners (fold unsubscribe ls w) k
           = A k @ filter (\<lambda>x. x \<notin> set (handlers_at ls k)) (B k)"
  using assms
proof (induction ls arbitrary: w B)
  case Nil
  then have "listeners w k = A k @ B k" by blast
  then show ?case by (simp add: handlers_at_def)
next
  case (Cons l ls)
  let ?B = "\<lambda>k'. if k' = (sub_source l, sub_event l)
                  then filter (\<lambda>x. x \<noteq> sub_handler l) (B k') else B k'"
  have a: "\<forall>k. listeners (unsubscribe l w) k = A k @ ?B k"
    using Cons.prems by (simp add: listeners_unsubscribe remove_last_append_fresh)
  have b: "\<forall>l \<in> set ls. \<forall>k. sub_handler l \<notin> set (A k)"
    using Cons.prems(2) by simp
  have c: "\<forall>k. distinct (?B k)"
    using Cons.prems(3) by simp
  have "listeners (fold unsubscribe ls (unsubscribe l w)) k
          = A k @ filter (\<lambda>x. x \<notin> set (handlers_at ls k)) (?B k)"
    by (rule Cons.IH [OF a b c])
  then show ?case
    by (auto simp: handlers_at_Cons intro!: filter_cong)
qed

lemma distinct_concat_family:
  assumes "\<And>i j. i \<noteq> j \<Longrightarrow> set (H i) \<inter> set (H j) = {}" and "\<And>j. distinct (H j)"
    and "distinct js"
  shows "distinct (concat (map H js))"
  using assms(3)
proof (induction js)
  case Nil
  then show ?case by simp
next
  case (Cons j js)
  have "set (H j) \<inter> set (H j') = {}" if "j' \<in> set js" for j'
  proof -
    from that Cons.prems have "j \<noteq> j'" by auto
    then show ?thesis by (rule assms(1))
  qed
  with Cons assms(2) show ?case by auto
qed

lemma filter_concat_family:
  assumes "\<And>j. j \<noteq> i \<Longrightarrow> set (H i) \<inter> set (H j) = {}"
  shows "filter (\<lambda>x. x \<notin> set (H i)) (concat (map H js))
           = concat (map H (filter (\<lambda>j. j \<noteq> i) js))"
proof (induction js)
  case Nil
  then show ?case by simp
next
  case (Cons j js)
  show ?case
  proof (cases "j = i")
    case True
    have "filter (\<lambda>x. x \<notin> set (H i)) (H i) = []"
      by (induction "H i") auto
    with True Cons show ?thesis by simp
  next
    case False
    then have "set (H i) \<inter> set (H j) = {}" by (rule assms)
    then have "filter (\<lambda>x. x \<notin> set (H i)) (H j) = H j"
      by (auto simp: filter_id_conv)
    with False Cons show ?thesis by simp
  qed
qed

lemma length_concat_family:
  assumes "distinct js" and "i \<in> set js"
  shows "length (concat (map H (filter (\<lambda>j. j \<noteq> i) js))) + length (H i)
           = length (concat (map H js))"
  using assms
proof (induction js)
  case Nil
  then show ?case by simp
next
  case (Cons j js)
  show ?case
  proof (cases "j = i")
    case True
    with Cons.prems have "i \<notin> set js" by simp
    then have "filter (\<lambda>j. j \<noteq> i) js = js" by (auto simp: filter_id_conv)
    with True show ?thesis by simp
  next
    case False
    with Cons show ?thesis by simp
  qed
qed

lemma block_le:
  assumes "i < j"
  shows "i * K + K \<le> j * (K::nat)"
proof -
  from assms have "Suc i \<le> j" by simp
  then have "Suc i * K \<le> j * K" by (rule mult_le_mono1)
  then show ?thesis by simp
qed

lemma block_range:
  assumes "h \<in> set (handlers_at (block_at opts w0 i) k)"
  shows "next_handler w0 + i * block opts \<le> h \<and> h < next_handler w0 + i * block opts + block opts"
proof -
  from assms have "h \<in> set (map sub_handler (block_at opts w0 i))"
    by (auto simp: handlers_at_def)
  then show ?thesis
    by (simp add: block_at_def handlers_subs_all block_def)
qed

lemma blocks_disjoint:
  assumes "i \<noteq> j"
  shows "set (handlers_at (block_at opts w0 i) k) \<inter> set (handlers_at (block_at opts w0 j) k') = {}"
proof -
  have "False" if a: "h \<in> set (handlers_at (block_at opts w0 i) k)"
    and b: "h \<in> set (handlers_at (block_at opts w0 j) k')" for h
  proof (cases "i < j")
    case True
    from block_le [OF True, where K = "block opts"] block_range [OF a] block_range [OF b]
    show False by simp
  next
    case False
    with assms have "j < i" by simp
    from block_le [OF this, where K = "block opts"] block_range [OF a] block_range [OF b]
    show False by simp
  qed
  then show ?thesis by blast
qed

lemma distinct_block: "distinct (handlers_at (block_at opts w0 i) k)"
  by (simp add: handlers_at_def distinct_map_filter block_at_def handlers_subs_all)

lemma block_fresh:
  assumes "wf_world w0" and "l \<in> set (block_at opts w0 i)"
  shows "sub_handler l \<notin> set (listeners w0 k)"
proof
  assume "sub_handler l \<in> set (listeners w0 k)"
  with assms(1) have "sub_handler l < next_handler w0"
    unfolding wf_world_def by blast
  moreover from assms(2) have "sub_handler l \<in> set (map sub_handler (block_at opts w0 i))"
    by simp
  then have "next_handler w0 + i * block opts \<le> sub_handler l"
    by (simp add: block_at_def handlers_subs_all)
  ultimately show False by simp
qed

lemma live_ids_facts:
  "distinct (live_ids s)"
  "set (live_ids s) = {..< length (sv_opened s)} - sv_ended s"
  by (auto simp: live_ids_def)

lemma stream_inv_start:
  "stream_inv opts w0 \<lparr>sv_world = w0, sv_opened = [], sv_ended = {}\<rparr>"
  by (simp add: stream_inv_def live_ids_def)

lemma stream_inv_opens:
  assumes "stream_inv opts w0 s"
  shows "stream_inv opts w0 (step opts Opens s)"
proof -
  let ?n = "length (sv_opened s)"
  let ?w = "sv_world s"
  from assms have nh: "next_handler ?w = next_handler w0 + ?n * block opts"
    and nt: "next_timer ?w = next_timer w0 + ?n"
    and en: "sv_ended s \<subseteq> {..< ?n}"
    and cs: "\<forall>i < ?n. conn_listeners (sv_opened s ! i) = block_at opts w0 i
                       \<and> heartbeat (sv_opened s ! i) = next_timer w0 + i"
    and ls: "\<forall>k. listeners ?w k
               = listeners w0 k
                 @ concat (map (\<lambda>i. handlers_at (block_at opts w0 i) k) (live_ids s))"
    and tm: "timers ?w = timers w0 \<union> (\<lambda>i. next_timer w0 + i) ` set (live_ids s)"
    by (simp_all add: stream_inv_def)
  obtain c w' where op: "open_events opts ?w = (c, w')" by (cases "open_events opts ?w")
  then have c: "conn_listeners c = block_at opts w0 ?n" "heartbeat c = next_timer w0 + ?n"
    and w': "w' = (fold subscribe (block_at opts w0 ?n) ?w)
                    \<lparr>next_handler := next_handler w0 + ?n * block opts + block opts,
                     timers := insert (next_timer w0 + ?n) (timers ?w),
                     next_timer := Suc (next_timer w0 + ?n)\<rparr>"
    by (auto simp: open_events_eq block_at_def nh nt block_def)
  have s': "step opts Opens s = s\<lparr>sv_world := w', sv_opened := sv_opened s @ [c]\<rparr>"
    by (simp add: op)
  have "?n \<notin> sv_ended s" using en by auto
  then have li: "live_ids (s\<lparr>sv_world := x, sv_opened := sv_opened s @ [c]\<rparr>) = live_ids s @ [?n]"
    for x
    by (simp add: live_ids_def)
  show ?thesis
    unfolding s' stream_inv_def
  proof (intro conjI allI impI)
    show "next_handler (sv_world (s\<lparr>sv_world := w', sv_opened := sv_opened s @ [c]\<rparr>))
            = next_handler w0
              + length (sv_opened (s\<lparr>sv_world := w', sv_opened := sv_opened s @ [c]\<rparr>)) * block opts"
      by (simp add: w')
    show "next_timer (sv_world (s\<lparr>sv_world := w', sv_opened := sv_opened s @ [c]\<rparr>))
            = next_timer w0 + length (sv_opened (s\<lparr>sv_world := w', sv_opened := sv_opened s @ [c]\<rparr>))"
      by (simp add: w')
    show "sv_ended (s\<lparr>sv_world := w', sv_opened := sv_opened s @ [c]\<rparr>)
            \<subseteq> {..< length (sv_opened (s\<lparr>sv_world := w', sv_opened := sv_opened s @ [c]\<rparr>))}"
      using en by auto
  next
    fix i
    assume "i < length (sv_opened (s\<lparr>sv_world := w', sv_opened := sv_opened s @ [c]\<rparr>))"
    then have "i < ?n \<or> i = ?n" by auto
    then show "conn_listeners (sv_opened (s\<lparr>sv_world := w', sv_opened := sv_opened s @ [c]\<rparr>) ! i)
                 = block_at opts w0 i"
      and "heartbeat (sv_opened (s\<lparr>sv_world := w', sv_opened := sv_opened s @ [c]\<rparr>) ! i)
                 = next_timer w0 + i"
      using cs c by (auto simp: nth_append)
  next
    fix k
    show "listeners (sv_world (s\<lparr>sv_world := w', sv_opened := sv_opened s @ [c]\<rparr>)) k
            = listeners w0 k
              @ concat (map (\<lambda>i. handlers_at (block_at opts w0 i) k)
                          (live_ids (s\<lparr>sv_world := w', sv_opened := sv_opened s @ [c]\<rparr>)))"
      by (simp add: li w' listeners_fold_subscribe ls)
  next
    show "timers (sv_world (s\<lparr>sv_world := w', sv_opened := sv_opened s @ [c]\<rparr>))
            = timers w0
              \<union> (\<lambda>i. next_timer w0 + i)
                  ` set (live_ids (s\<lparr>sv_world := w', sv_opened := sv_opened s @ [c]\<rparr>))"
      by (simp add: li w' tm)
  qed
qed

lemma live_ids_ended:
  "live_ids (s\<lparr>sv_world := x, sv_ended := insert i (sv_ended s)\<rparr>)
     = filter (\<lambda>j. j \<noteq> i) (live_ids s)"
  by (auto simp: live_ids_def intro: filter_cong)

text \<open>The world after a terminal event of the connection opened as the \<open>i\<close>-th.\<close>

lemma terminal_effect:
  assumes "stream_inv opts w0 s" and "wf_world w0" and "i < length (sv_opened s)"
  shows "listeners (on_terminal t (sv_opened s ! i) (sv_world s)) k
           = listeners w0 k
             @ concat (map (\<lambda>j. handlers_at (block_at opts w0 j) k)
                         (filter (\<lambda>j. j \<noteq> i) (live_ids s)))"
    and "timers (on_terminal t (sv_opened s ! i) (sv_world s))
           = timers w0 \<union> (\<lambda>j. next_timer w0 + j) ` set (filter (\<lambda>j. j \<noteq> i) (live_ids s))"
    and "next_handler (on_terminal t (sv_opened s ! i) (sv_world s)) = next_handler (sv_world s)"
    and "next_timer (on_terminal t (sv_opened s ! i) (sv_world s)) = next_timer (sv_world s)"
proof -
  let ?w = "sv_world s"
  let ?c = "sv_opened s ! i"
  let ?H = "\<lambda>k j. handlers_at (block_at opts w0 j) k"
  from assms(1,3) have c: "conn_listeners ?c = block_at opts w0 i"
    "heartbeat ?c = next_timer w0 + i"
    by (simp_all add: stream_inv_def)
  from assms(1) have ls: "\<forall>k. listeners ?w k = listeners w0 k @ concat (map (?H k) (live_ids s))"
    and tm: "timers ?w = timers w0 \<union> (\<lambda>j. next_timer w0 + j) ` set (live_ids s)"
    by (simp_all add: stream_inv_def)
  let ?w1 = "?w\<lparr>timers := timers ?w - {next_timer w0 + i}\<rparr>"
  have t: "on_terminal t ?c ?w = fold unsubscribe (block_at opts w0 i) ?w1"
    by (simp add: on_terminal_cleanup cleanup_fold c)
  have a: "\<forall>k. listeners ?w1 k = listeners w0 k @ concat (map (?H k) (live_ids s))"
    using ls by simp
  have b: "\<forall>l \<in> set (block_at opts w0 i). \<forall>k. sub_handler l \<notin> set (listeners w0 k)"
    using block_fresh [OF assms(2)] by blast
  have d: "\<forall>k. distinct (concat (map (?H k) (live_ids s)))"
  proof
    fix k
    show "distinct (concat (map (?H k) (live_ids s)))"
      by (rule distinct_concat_family)
         (simp_all add: blocks_disjoint distinct_block live_ids_facts)
  qed
  have "listeners (on_terminal t ?c ?w) k
          = listeners w0 k
            @ filter (\<lambda>x. x \<notin> set (?H k i)) (concat (map (?H k) (live_ids s)))"
    unfolding t by (rule listeners_fold_unsubscribe [OF a b d])
  also have "filter (\<lambda>x. x \<notin> set (?H k i)) (concat (map (?H k) (live_ids s)))
               = concat (map (?H k) (filter (\<lambda>j. j \<noteq> i) (live_ids s)))"
    by (rule filter_concat_family) (simp add: blocks_disjoint)
  finally show "listeners (on_terminal t ?c ?w) k
           = listeners w0 k @ concat (map (?H k) (filter (\<lambda>j. j \<noteq> i) (live_ids s)))" .
  have "next_timer w0 + i \<notin> timers w0"
    using assms(2) unfolding wf_world_def by fastforce
  then show "timers (on_terminal t ?c ?w)
           = timers w0 \<union> (\<lambda>j. next_timer w0 + j) ` set (filter (\<lambda>j. j \<noteq> i) (live_ids s))"
    by (auto simp: t fold_unsubscribe_fields tm)
  show "next_handler (on_terminal t ?c ?w) = next_handler ?w"
    and "next_timer (on_terminal t ?c ?w) = next_timer ?w"
    by (simp_all add: t fold_unsubscribe_fields)
qed

lemma stream_inv_ends:
  assumes "stream_inv opts w0 s" and "wf_world w0"
  shows "stream_inv opts w0 (step opts (Ends t i) s)"
proof (cases "i < length (sv_opened s)")
  case False
  with assms(1) show ?thesis by simp
next
  case True
  note eff = terminal_effect [OF assms True, of t]
  from assms(1) have "sv_ended s \<subseteq> {..< length (sv_opened s)}"
    and "\<forall>i < length (sv_opened s).
            conn_listeners (sv_opened s ! i) = block_at opts w0 i
            \<and> heartbeat (sv_opened s ! i) = next_timer w0 + i"
    and "next_handler (sv_world s) = next_handler w0 + length (sv_opened s) * block opts"
    and "next_timer (sv_world s) = next_timer w0 + length (sv_opened s)"
    by (simp_all add: stream_inv_def)
  with True eff show ?thesis
    by (simp add: stream_inv_def live_ids_ended)
qed

lemma run_snoc: "run opts (evs @ [e]) w0 = step opts e (run opts evs w0)"
  by (simp add: run_def)

lemma stream_inv_run:
  assumes "wf_world w0"
  shows "stream_inv opts w0 (run opts evs w0)"
proof (induction evs rule: rev_induct)
  case Nil
  show ?case by (simp add: run_def stream_inv_start)
next
  case (snoc e evs)
  show ?case
  proof (cases e)
    case Opens
    with snoc show ?thesis by (simp only: run_snoc stream_inv_opens)
  next
    case (Ends t i)
    with snoc assms show ?thesis by (simp only: run_snoc stream_inv_ends)
  qed
qed

text \<open>What is registered, in terms of the connections that are open.\<close>

lemma registered_of_live:
  assumes "stream_inv opts w0 s"
  shows "listeners (sv_world s) k
           = listeners w0 k @ concat (map (\<lambda>c. handlers_at (conn_listeners c) k) (live s))"
    and "timers (sv_world s) = timers w0 \<union> heartbeat ` set (live s)"
proof -
  from assms have c: "\<forall>i \<in> set (live_ids s).
            conn_listeners (sv_opened s ! i) = block_at opts w0 i
            \<and> heartbeat (sv_opened s ! i) = next_timer w0 + i"
    by (simp add: stream_inv_def live_ids_def)
  then have "map (\<lambda>c. handlers_at (conn_listeners c) k) (live s)
               = map (\<lambda>i. handlers_at (block_at opts w0 i) k) (live_ids s)"
    by (simp add: live_def)
  moreover from assms have "listeners (sv_world s) k
           = listeners w0 k @ concat (map (\<lambda>i. handlers_at (block_at opts w0 i) k) (live_ids s))"
    unfolding stream_inv_def by blast
  ultimately show "listeners (sv_world s) k
           = listeners w0 k @ concat (map (\<lambda>c. handlers_at (conn_listeners c) k) (live s))"
    by simp
  from c have "heartbeat ` set (live s) = (\<lambda>i. next_timer w0 + i) ` set (live_ids s)"
    by (force simp: live_def image_iff)
  with assms show "timers (sv_world s) = timers w0 \<union> heartbeat ` set (live s)"
    by (simp add: stream_inv_def)
qed

lemma live_after_terminal:
  assumes "stream_inv opts w0 s" and "i < length (sv_opened s)"
  shows "live (step opts (Ends t i) s) = filter (\<lambda>c. c \<noteq> sv_opened s ! i) (live s)"
proof -
  from assms(1) have hb: "\<forall>j < length (sv_opened s). heartbeat (sv_opened s ! j) = next_timer w0 + j"
    by (simp add: stream_inv_def)
  have "(sv_opened s ! j \<noteq> sv_opened s ! i) = (j \<noteq> i)" if "j \<in> set (live_ids s)" for j
  proof -
    from that have "j < length (sv_opened s)" by (simp add: live_ids_def)
    with hb assms(2) have "heartbeat (sv_opened s ! j) = next_timer w0 + j"
      "heartbeat (sv_opened s ! i) = next_timer w0 + i" by simp_all
    then show ?thesis by (cases "j = i") auto
  qed
  then have "filter (\<lambda>j. sv_opened s ! j \<noteq> sv_opened s ! i) (live_ids s)
               = filter (\<lambda>j. j \<noteq> i) (live_ids s)"
    by (auto intro: filter_cong)
  then show ?thesis
    using assms(2) by (simp add: live_def live_ids_ended filter_map comp_def)
qed

lemma block_shape:
  "distinct (map sub_handler (block_at opts w0 i))"
  "length (block_at opts w0 i) = 7 * length (opt_queueEvents opts)"
proof -
  have ids: "map sub_handler (block_at opts w0 i)
               = [next_handler w0 + i * block opts ..< next_handler w0 + i * block opts + block opts]"
    by (simp add: block_at_def handlers_subs_all block_def)
  show "distinct (map sub_handler (block_at opts w0 i))"
    by (simp add: ids)
  have "length (map sub_handler (block_at opts w0 i)) = block opts"
    by (simp add: ids)
  then show "length (block_at opts w0 i) = 7 * length (opt_queueEvents opts)"
    by (simp add: block_def eventNames_def)
qed

lemma handler_at_own_key:
  "l \<in> set ls \<Longrightarrow> sub_handler l \<in> set (handlers_at ls (sub_source l, sub_event l))"
  by (auto simp: handlers_at_def)

lemma handlers_at_subset: "h \<in> set (handlers_at ls k) \<Longrightarrow> h \<in> sub_handler ` set ls"
  by (auto simp: handlers_at_def)

lemma count_list_distinct: "distinct xs \<Longrightarrow> x \<in> set xs \<Longrightarrow> count_list xs x = 1"
  by (induction xs) (auto simp: count_list_0_iff)

text \<open>A connection that is open holds each of its closures exactly once.\<close>

lemma live_registered_once:
  assumes "stream_inv opts w0 s" and "wf_world w0" and "i < length (sv_opened s)"
    and "i \<notin> sv_ended s" and "l \<in> set (conn_listeners (sv_opened s ! i))"
  shows "count_list (listeners (sv_world s) (sub_source l, sub_event l)) (sub_handler l) = 1"
proof -
  let ?k = "(sub_source l, sub_event l)"
  let ?H = "\<lambda>j. handlers_at (block_at opts w0 j) ?k"
  from assms(1,3) have c: "conn_listeners (sv_opened s ! i) = block_at opts w0 i"
    by (simp add: stream_inv_def)
  from assms(1) have ls: "listeners (sv_world s) ?k = listeners w0 ?k @ concat (map ?H (live_ids s))"
    unfolding stream_inv_def by blast
  have i: "i \<in> set (live_ids s)"
    using assms(3,4) by (simp add: live_ids_def)
  have "sub_handler l \<in> set (?H i)"
    using assms(5) by (simp add: c handler_at_own_key)
  with i have "sub_handler l \<in> set (concat (map ?H (live_ids s)))" by auto
  moreover have "distinct (concat (map ?H (live_ids s)))"
    by (rule distinct_concat_family)
       (simp_all add: blocks_disjoint distinct_block live_ids_facts)
  ultimately have "count_list (concat (map ?H (live_ids s))) (sub_handler l) = 1"
    by (simp add: count_list_distinct)
  moreover have "count_list (listeners w0 ?k) (sub_handler l) = 0"
    using block_fresh [OF assms(2), of l opts i ?k] assms(5) by (simp add: c count_list_0_iff)
  ultimately show ?thesis by (simp add: ls)
qed

text \<open>A terminal event removes the closures of its connection and nothing else.\<close>

lemma terminal_removes_own:
  assumes "stream_inv opts w0 s" and "wf_world w0" and "i < length (sv_opened s)"
  shows "listeners (on_terminal t (sv_opened s ! i) (sv_world s)) k
           = filter (\<lambda>h. h \<notin> set (handlers_at (conn_listeners (sv_opened s ! i)) k))
               (listeners (sv_world s) k)"
proof -
  let ?H = "\<lambda>j. handlers_at (block_at opts w0 j) k"
  from assms(1,3) have c: "conn_listeners (sv_opened s ! i) = block_at opts w0 i"
    by (simp add: stream_inv_def)
  from assms(1) have ls: "listeners (sv_world s) k = listeners w0 k @ concat (map ?H (live_ids s))"
    unfolding stream_inv_def by blast
  have "\<forall>h \<in> set (listeners w0 k). h \<notin> set (?H i)"
    using block_fresh [OF assms(2), of _ opts i k] handlers_at_subset [of _ "block_at opts w0 i" k]
    by blast
  then have "filter (\<lambda>h. h \<notin> set (?H i)) (listeners w0 k) = listeners w0 k"
    by (simp add: filter_id_conv)
  moreover have "filter (\<lambda>h. h \<notin> set (?H i)) (concat (map ?H (live_ids s)))
                   = concat (map ?H (filter (\<lambda>j. j \<noteq> i) (live_ids s)))"
    by (rule filter_concat_family) (simp add: blocks_disjoint)
  ultimately show ?thesis
    by (simp add: terminal_effect(1) [OF assms] c ls)
qed

lemma terminal_leaves_none:
  assumes "stream_inv opts w0 s" and "wf_world w0" and "i < length (sv_opened s)"
    and "l \<in> set (conn_listeners (sv_opened s ! i))"
  shows "sub_handler l \<notin> set (listeners (on_terminal t (sv_opened s ! i) (sv_world s)) k)"
proof
  let ?k = "(sub_source l, sub_event l)"
  assume "sub_handler l \<in> set (listeners (on_terminal t (sv_opened s ! i) (sv_world s)) k)"
  moreover from assms(1,3) have c: "conn_listeners (sv_opened s ! i) = block_at opts w0 i"
    by (simp add: stream_inv_def)
  moreover have "sub_handler l \<notin> set (listeners w0 k)"
    using block_fresh [OF assms(2), of l opts i k] assms(4) by (simp add: c)
  ultimately obtain j where j: "j \<noteq> i"
    and "sub_handler l \<in> set (handlers_at (block_at opts w0 j) k)"
    by (auto simp: terminal_effect(1) [OF assms(1,2,3)])
  moreover have "sub_handler l \<in> set (handlers_at (block_at opts w0 i) ?k)"
    using assms(4) by (simp add: c handler_at_own_key)
  ultimately show False
    using blocks_disjoint [of i j opts w0 ?k k] by blast
qed

lemma terminal_count:
  assumes "stream_inv opts w0 s" and "wf_world w0" and "i < length (sv_opened s)"
    and "i \<notin> sv_ended s"
  shows "listenerCount (on_terminal t (sv_opened s ! i) (sv_world s)) src ev
           + length (handlers_at (conn_listeners (sv_opened s ! i)) (src, ev))
         = listenerCount (sv_world s) src ev"
proof -
  let ?H = "\<lambda>j. handlers_at (block_at opts w0 j) (src, ev)"
  from assms(1,3) have c: "conn_listeners (sv_opened s ! i) = block_at opts w0 i"
    by (simp add: stream_inv_def)
  from assms(1) have ls: "listeners (sv_world s) (src, ev)
                            = listeners w0 (src, ev) @ concat (map ?H (live_ids s))"
    unfolding stream_inv_def by blast
  have "i \<in> set (live_ids s)"
    using assms(3,4) by (simp add: live_ids_def)
  then have "length (concat (map ?H (filter (\<lambda>j. j \<noteq> i) (live_ids s)))) + length (?H i)
               = length (concat (map ?H (live_ids s)))"
    by (rule length_concat_family [OF live_ids_facts(1)])
  then show ?thesis
    by (simp add: listenerCount_def terminal_effect(1) [OF assms(1,2,3)] c ls)
qed

lemma terminal_timer:
  "timers (on_terminal t c w) = timers w - {heartbeat c}"
  by (simp add: on_terminal_cleanup cleanup_fold fold_unsubscribe_fields)

text \<open>A terminal event of a connection that has had one changes nothing.\<close>

lemma terminal_again:
  assumes "stream_inv opts w0 s" and "wf_world w0" and "i < length (sv_opened s)"
    and "i \<in> sv_ended s"
  shows "on_terminal t (sv_opened s ! i) (sv_world s) = sv_world s"
proof -
  have "i \<notin> set (live_ids s)"
    using assms(4) by (simp add: live_ids_def)
  then have same: "filter (\<lambda>j. j \<noteq> i) (live_ids s) = live_ids s"
    by (auto simp: filter_id_conv)
  note eff = terminal_effect [OF assms(1,2,3), of t]
  have "listeners (on_terminal t (sv_opened s ! i) (sv_world s)) k = listeners (sv_world s) k" for k
  proof -
    from assms(1) have "listeners (sv_world s) k
          = listeners w0 k
            @ concat (map (\<lambda>j. handlers_at (block_at opts w0 j) k) (live_ids s))"
      unfolding stream_inv_def by blast
    then show ?thesis by (simp add: eff(1) same)
  qed
  then have "listeners (on_terminal t (sv_opened s ! i) (sv_world s)) = listeners (sv_world s)"
    by (rule ext)
  moreover from assms(1)
  have "timers (on_terminal t (sv_opened s ! i) (sv_world s)) = timers (sv_world s)"
    by (simp add: eff(2) same stream_inv_def)
  ultimately show ?thesis
    by (intro world.equality) (simp_all add: eff(3,4))
qed

lemma step_fields:
  "sv_opened (step opts Opens s) = sv_opened s @ [fst (open_events opts (sv_world s))]"
  "sv_ended (step opts Opens s) = sv_ended s"
  "sv_world (step opts Opens s) = snd (open_events opts (sv_world s))"
  "sv_opened (step opts (Ends t i) s) = sv_opened s"
  "sv_ended (step opts (Ends t i) s)
     = (if i < length (sv_opened s) then insert i (sv_ended s) else sv_ended s)"
  "sv_world (step opts (Ends t i) s)
     = (if i < length (sv_opened s) then on_terminal t (sv_opened s ! i) (sv_world s)
        else sv_world s)"
  by (simp_all split: prod.splits)

lemma open_events_fields:
  "conn_listeners (fst (open_events opts w)) = subs_all (opt_queueEvents opts) (next_handler w)"
  "heartbeat (fst (open_events opts w)) = next_timer w"
  "next_handler (snd (open_events opts w))
     = next_handler w + length eventNames * length (opt_queueEvents opts)"
  "next_timer (snd (open_events opts w)) = Suc (next_timer w)"
  by (simp_all add: open_events_eq)

lemma wf_empty_world: "wf_world empty_world"
  by (simp add: wf_world_def empty_world_def)

lemma sample_blocks:
  "handlers_at (block_at events_opts empty_world 0) (0, ''failed'') = [1]"
  "handlers_at (block_at events_opts empty_world (Suc 0)) (0, ''failed'') = [15]"
  "listeners empty_world k = []"
  by (simp_all add: block_at_def block_def opt_queueEvents_def events_opts_def empty_world_def
        eventNames_def handlers_at_def)

text \<open>
  Claim C3, as the spec states it, fails when connections overlap. In a world without
  listeners a first client connects, then a second, then the first connection closes: the
  source 0 then has one listener for \<^verbatim>\<open>failed\<close>, the one of the second connection, and not
  none, its count before the first connection opened.
\<close>

theorem overlapping_connections_counterexample:
  "listenerCount (sv_world (run events_opts [] empty_world)) 0 ''failed'' = 0
   \<and> sv_opened (run events_opts [] empty_world) = []
   \<and> length (sv_opened (run events_opts [Opens, Opens, Ends Close 0] empty_world)) = 2
   \<and> sv_ended (run events_opts [Opens, Opens, Ends Close 0] empty_world) = {0}
   \<and> listenerCount (sv_world (run events_opts [Opens, Opens, Ends Close 0] empty_world))
        0 ''failed'' = 1"
proof -
  let ?s = "run events_opts [Opens, Opens, Ends Close 0] empty_world"
  have n: "length (sv_opened ?s) = 2" and e: "sv_ended ?s = {0}"
    by (simp_all add: run_def step_fields del: step.simps)
  have "live_ids ?s = [Suc 0]"
    by (simp add: live_ids_def n e upt_rec)
  moreover have "stream_inv events_opts empty_world ?s"
    by (rule stream_inv_run [OF wf_empty_world])
  then have "listeners (sv_world ?s) (0, ''failed'')
               = listeners empty_world (0, ''failed'')
                 @ concat (map (\<lambda>i. handlers_at (block_at events_opts empty_world i) (0, ''failed''))
                             (live_ids ?s))"
    unfolding stream_inv_def by blast
  ultimately have "listenerCount (sv_world ?s) 0 ''failed'' = 1"
    by (simp add: listenerCount_def sample_blocks)
  moreover have "listenerCount (sv_world (run events_opts [] empty_world)) 0 ''failed'' = 0"
    by (simp add: run_def listenerCount_def empty_world_def)
  moreover have "sv_opened (run events_opts [] empty_world) = []"
    by (simp add: run_def)
  ultimately show ?thesis using n e by simp
qed

text \<open>
  Claim C3, amended. Take any sequence of connections opening and of terminal events
  (\<^verbatim>\<open>close\<close> or \<^verbatim>\<open>error\<close>) on them, from a well-formed world, and any connection opened in it.
  What is registered on the sources is always what was registered at the start, then the
  handlers of the connections that are open, and the running timers are those of the start
  and the heartbeats of the open connections. The connection has registered one closure per
  source and event name, seven per source, all distinct. While it is open each of them is
  registered exactly once, and its heartbeat runs. Its terminal event removes exactly its
  handlers, each once, and leaves the listeners of all others in place: every listener count
  drops by the number of handlers the connection registered there, none of its handlers
  remains, its heartbeat is cancelled, and it is no longer open. A further terminal event of
  the same connection changes nothing. So the listeners and the timers depend only on which
  connections are open: the listener count after a connection has ended equals the count
  before it opened whenever the same connections are open at both moments, and in
  particular when no other connection opened or ended in between.
\<close>

theorem connection_handlers_removed_exactly_once:
  assumes "wf_world w0" and "run opts evs w0 = s" and "i < length (sv_opened s)"
  shows "(\<forall>k. listeners (sv_world s) k
               = listeners w0 k @ concat (map (\<lambda>c. handlers_at (conn_listeners c) k) (live s)))
         \<and> timers (sv_world s) = timers w0 \<union> heartbeat ` set (live s)
         \<and> distinct (map sub_handler (conn_listeners (sv_opened s ! i)))
         \<and> length (conn_listeners (sv_opened s ! i)) = 7 * length (opt_queueEvents opts)
         \<and> (i \<notin> sv_ended s \<longrightarrow>
              (\<forall>l \<in> set (conn_listeners (sv_opened s ! i)).
                  count_list (listeners (sv_world s) (sub_source l, sub_event l)) (sub_handler l) = 1)
              \<and> heartbeat (sv_opened s ! i) \<in> timers (sv_world s)
              \<and> (\<forall>t src ev.
                    listenerCount (on_terminal t (sv_opened s ! i) (sv_world s)) src ev
                      + length (handlers_at (conn_listeners (sv_opened s ! i)) (src, ev))
                    = listenerCount (sv_world s) src ev))
         \<and> (\<forall>t k. listeners (on_terminal t (sv_opened s ! i) (sv_world s)) k
                     = filter (\<lambda>h. h \<notin> set (handlers_at (conn_listeners (sv_opened s ! i)) k))
                         (listeners (sv_world s) k))
         \<and> (\<forall>t k. \<forall>l \<in> set (conn_listeners (sv_opened s ! i)).
                sub_handler l \<notin> set (listeners (on_terminal t (sv_opened s ! i) (sv_world s)) k))
         \<and> (\<forall>t. timers (on_terminal t (sv_opened s ! i) (sv_world s))
                   = timers (sv_world s) - {heartbeat (sv_opened s ! i)})
         \<and> (\<forall>t. live (step opts (Ends t i) s) = filter (\<lambda>c. c \<noteq> sv_opened s ! i) (live s))
         \<and> (i \<in> sv_ended s \<longrightarrow>
              (\<forall>t. on_terminal t (sv_opened s ! i) (sv_world s) = sv_world s))
         \<and> (\<forall>evs'. live (run opts evs' w0) = live s \<longrightarrow>
                listeners (sv_world (run opts evs' w0)) = listeners (sv_world s)
                \<and> timers (sv_world (run opts evs' w0)) = timers (sv_world s))"
proof -
  have inv: "stream_inv opts w0 s"
    using stream_inv_run [OF assms(1), of opts evs] assms(2) by simp
  note wf = assms(1) and i = assms(3)
  from inv i have c: "conn_listeners (sv_opened s ! i) = block_at opts w0 i"
    by (simp add: stream_inv_def)
  have registered: "\<forall>k. listeners (sv_world s) k
               = listeners w0 k @ concat (map (\<lambda>c. handlers_at (conn_listeners c) k) (live s))"
    using registered_of_live(1) [OF inv] by blast
  have running: "timers (sv_world s) = timers w0 \<union> heartbeat ` set (live s)"
    by (rule registered_of_live(2) [OF inv])
  have shape: "distinct (map sub_handler (conn_listeners (sv_opened s ! i)))"
    "length (conn_listeners (sv_opened s ! i)) = 7 * length (opt_queueEvents opts)"
    by (simp_all add: c block_shape)
  have open_now: "i \<notin> sv_ended s \<longrightarrow>
              (\<forall>l \<in> set (conn_listeners (sv_opened s ! i)).
                  count_list (listeners (sv_world s) (sub_source l, sub_event l)) (sub_handler l) = 1)
              \<and> heartbeat (sv_opened s ! i) \<in> timers (sv_world s)
              \<and> (\<forall>t src ev.
                    listenerCount (on_terminal t (sv_opened s ! i) (sv_world s)) src ev
                      + length (handlers_at (conn_listeners (sv_opened s ! i)) (src, ev))
                    = listenerCount (sv_world s) src ev)"
  proof (intro impI conjI ballI allI)
    assume live: "i \<notin> sv_ended s"
    show "count_list (listeners (sv_world s) (sub_source l, sub_event l)) (sub_handler l) = 1"
      if "l \<in> set (conn_listeners (sv_opened s ! i))" for l
      using that by (rule live_registered_once [OF inv wf i live])
    have "i \<in> set (live_ids s)" using i live by (simp add: live_ids_def)
    then have "sv_opened s ! i \<in> set (live s)" by (simp add: live_def)
    then show "heartbeat (sv_opened s ! i) \<in> timers (sv_world s)"
      by (simp add: running)
    show "listenerCount (on_terminal t (sv_opened s ! i) (sv_world s)) src ev
            + length (handlers_at (conn_listeners (sv_opened s ! i)) (src, ev))
          = listenerCount (sv_world s) src ev" for t src ev
      by (rule terminal_count [OF inv wf i live])
  qed
  have removed: "\<forall>t k. listeners (on_terminal t (sv_opened s ! i) (sv_world s)) k
                     = filter (\<lambda>h. h \<notin> set (handlers_at (conn_listeners (sv_opened s ! i)) k))
                         (listeners (sv_world s) k)"
    using terminal_removes_own [OF inv wf i] by blast
  have none_left: "\<forall>t k. \<forall>l \<in> set (conn_listeners (sv_opened s ! i)).
                sub_handler l \<notin> set (listeners (on_terminal t (sv_opened s ! i) (sv_world s)) k)"
    using terminal_leaves_none [OF inv wf i] by blast
  have cancelled: "\<forall>t. timers (on_terminal t (sv_opened s ! i) (sv_world s))
                   = timers (sv_world s) - {heartbeat (sv_opened s ! i)}"
    by (simp add: terminal_timer)
  have closed: "\<forall>t. live (step opts (Ends t i) s)
                      = filter (\<lambda>c. c \<noteq> sv_opened s ! i) (live s)"
    using live_after_terminal [OF inv i] by blast
  have again: "i \<in> sv_ended s \<longrightarrow>
              (\<forall>t. on_terminal t (sv_opened s ! i) (sv_world s) = sv_world s)"
    using terminal_again [OF inv wf i] by blast
  have same: "\<forall>evs'. live (run opts evs' w0) = live s \<longrightarrow>
                listeners (sv_world (run opts evs' w0)) = listeners (sv_world s)
                \<and> timers (sv_world (run opts evs' w0)) = timers (sv_world s)"
  proof (intro allI impI conjI)
    fix evs'
    assume l: "live (run opts evs' w0) = live s"
    have inv': "stream_inv opts w0 (run opts evs' w0)"
      by (rule stream_inv_run [OF wf])
    show "listeners (sv_world (run opts evs' w0)) = listeners (sv_world s)"
      by (rule ext) (simp add: registered_of_live(1) [OF inv'] registered_of_live(1) [OF inv] l)
    show "timers (sv_world (run opts evs' w0)) = timers (sv_world s)"
      by (simp add: registered_of_live(2) [OF inv'] running l)
  qed
  from registered running shape open_now removed none_left cancelled closed again same
  show ?thesis by blast
qed

theorem connection_handlers_removed_exactly_once_witness:
  "wf_world empty_world
   \<and> length (sv_opened (run events_opts [Opens, Opens] empty_world)) = 2
   \<and> 0 \<notin> sv_ended (run events_opts [Opens, Opens] empty_world)
   \<and> listenerCount (sv_world (run events_opts [Opens, Opens] empty_world)) 0 ''failed'' = 2
   \<and> listenerCount
        (on_terminal Close (sv_opened (run events_opts [Opens, Opens] empty_world) ! 0)
           (sv_world (run events_opts [Opens, Opens] empty_world))) 0 ''failed'' = 1
   \<and> 0 \<in> sv_ended (run events_opts [Opens, Opens, Ends Close 0] empty_world)
   \<and> on_terminal ResponseError
        (sv_opened (run events_opts [Opens, Opens, Ends Close 0] empty_world) ! 0)
        (sv_world (run events_opts [Opens, Opens, Ends Close 0] empty_world))
      = sv_world (run events_opts [Opens, Opens, Ends Close 0] empty_world)
   \<and> listeners (sv_world (run events_opts [Opens, Ends Close 0] empty_world))
      = listeners empty_world
   \<and> timers (sv_world (run events_opts [Opens, Ends Close 0] empty_world)) = timers empty_world"
proof -
  let ?two = "run events_opts [Opens, Opens] empty_world"
  let ?closed = "run events_opts [Opens, Opens, Ends Close 0] empty_world"
  let ?alone = "run events_opts [Opens, Ends Close 0] empty_world"
  note wf = wf_empty_world
  have n2: "length (sv_opened ?two) = 2" and e2: "0 \<notin> sv_ended ?two"
    by (simp_all add: run_def step_fields del: step.simps)
  have i2: "0 < length (sv_opened ?two)" by (simp add: n2)
  note two = connection_handlers_removed_exactly_once [OF wf refl i2]
  have l2: "conn_listeners (sv_opened ?two ! 0) = block_at events_opts empty_world 0"
    "map conn_listeners (live ?two)
       = [block_at events_opts empty_world 0, block_at events_opts empty_world (Suc 0)]"
    by (simp_all add: live_def live_ids_def upt_rec run_def step_fields open_events_fields
          block_at_def block_def empty_world_def del: step.simps)
  have "concat (map (\<lambda>c. handlers_at (conn_listeners c) (0, ''failed'')) (live ?two))
          = concat (map (\<lambda>ls. handlers_at ls (0, ''failed'')) (map conn_listeners (live ?two)))"
    by (simp add: comp_def)
  then have "concat (map (\<lambda>c. handlers_at (conn_listeners c) (0, ''failed'')) (live ?two)) = [1, 15]"
    by (simp only: l2) (simp add: sample_blocks)
  moreover from two [THEN conjunct1]
  have "listeners (sv_world ?two) (0, ''failed'')
      = listeners empty_world (0, ''failed'')
        @ concat (map (\<lambda>c. handlers_at (conn_listeners c) (0, ''failed'')) (live ?two))"
    by (rule spec)
  ultimately have before: "listenerCount (sv_world ?two) 0 ''failed'' = 2"
    by (simp add: listenerCount_def sample_blocks)
  from two [THEN conjunct2, THEN conjunct2, THEN conjunct2, THEN conjunct2, THEN conjunct1] e2
  have "listenerCount (on_terminal Close (sv_opened ?two ! 0) (sv_world ?two)) 0 ''failed''
                      + length (handlers_at (conn_listeners (sv_opened ?two ! 0)) (0, ''failed''))
                    = listenerCount (sv_world ?two) 0 ''failed''"
    by blast
  then have after: "listenerCount (on_terminal Close (sv_opened ?two ! 0) (sv_world ?two)) 0 ''failed'' = 1"
    by (simp add: before l2 sample_blocks)
  have n3: "0 < length (sv_opened ?closed)" and e3: "0 \<in> sv_ended ?closed"
    by (simp_all add: run_def step_fields del: step.simps)
  from connection_handlers_removed_exactly_once [OF wf refl n3, THEN conjunct2, THEN conjunct2,
         THEN conjunct2, THEN conjunct2, THEN conjunct2, THEN conjunct2, THEN conjunct2,
         THEN conjunct2, THEN conjunct2, THEN conjunct1] e3
  have again: "on_terminal ResponseError (sv_opened ?closed ! 0) (sv_world ?closed) = sv_world ?closed"
    by blast
  have n1: "0 < length (sv_opened ?alone)"
    by (simp add: run_def step_fields del: step.simps)
  have "live (run events_opts [] empty_world) = live ?alone"
    by (simp add: live_def live_ids_def run_def step_fields del: step.simps)
  with connection_handlers_removed_exactly_once [OF wf refl n1, THEN conjunct2, THEN conjunct2,
         THEN conjunct2, THEN conjunct2, THEN conjunct2, THEN conjunct2, THEN conjunct2,
         THEN conjunct2, THEN conjunct2, THEN conjunct2]
  have "listeners (sv_world (run events_opts [] empty_world)) = listeners (sv_world ?alone)
        \<and> timers (sv_world (run events_opts [] empty_world)) = timers (sv_world ?alone)"
    by blast
  then have alone: "listeners (sv_world ?alone) = listeners empty_world"
    "timers (sv_world ?alone) = timers empty_world"
    by (simp_all add: run_def)
  from wf n2 e2 before after e3 again alone show ?thesis by blast
qed

end
